theory Spec2Isabelle
  imports Main "HOL-Library.Sublist" "HOL-Library.List_Lexorder" "HOL-Library.Char_ord"
    "HOL-Library.Multiset"
begin

section \<open>Paths: the parts of Node's \<open>path\<close> module that \<open>index.js\<close> calls\<close>

text \<open>
  The host runs on POSIX paths. \<open>path.join\<close> joins its non-empty arguments with the
  separator and normalises the result; normalising drops empty and \<open>.\<close> segments and
  lets a \<open>..\<close> segment remove the segment before it. A path is a \<open>string\<close>, as in
  the source; a \<open>string\<close> here is the list of the bytes of the text in UTF-8.
\<close>

fun split_on :: "char \<Rightarrow> string \<Rightarrow> string list" where
  "split_on c [] = [[]]"
| "split_on c (x # xs) =
     (if x = c then [] # split_on c xs
      else (case split_on c xs of [] \<Rightarrow> [[x]] | s # ss \<Rightarrow> (x # s) # ss))"

fun join_segs :: "string list \<Rightarrow> string" where
  "join_segs [] = []"
| "join_segs [s] = s"
| "join_segs (s # t # ss) = s @ CHR ''/'' # join_segs (t # ss)"

text \<open>
  \<open>normalizeString(path, allowAboveRoot)\<close>, segment by segment: \<open>res\<close> holds the
  segments kept so far.
\<close>

fun normalizeString :: "bool \<Rightarrow> string list \<Rightarrow> string list \<Rightarrow> string list" where
  "normalizeString allowAboveRoot res [] = res"
| "normalizeString allowAboveRoot res (seg # segs) =
     (if seg = [] \<or> seg = ''.'' then normalizeString allowAboveRoot res segs
      else if seg = ''..'' then
        (if res \<noteq> [] \<and> last res \<noteq> ''..''
           then normalizeString allowAboveRoot (butlast res) segs
         else if allowAboveRoot
           then normalizeString allowAboveRoot (res @ [''..'']) segs
         else normalizeString allowAboveRoot res segs)
      else normalizeString allowAboveRoot (res @ [seg]) segs)"

definition normalize :: "string \<Rightarrow> string" where
  "normalize p =
     (if p = [] then ''.''
      else
        let isAbsolute = (hd p = CHR ''/'');
            trailingSeparator = (last p = CHR ''/'');
            q = join_segs (normalizeString (\<not> isAbsolute) [] (split_on CHR ''/'' p))
        in if q = [] then
             (if isAbsolute then ''/'' else if trailingSeparator then ''./'' else ''.'')
           else
             (let q' = (if trailingSeparator then q @ ''/'' else q)
              in if isAbsolute then CHR ''/'' # q' else q'))"

definition path_join :: "string list \<Rightarrow> string" where
  "path_join args =
     (let joined = join_segs (filter (\<lambda>a. a \<noteq> []) args)
      in if joined = [] then ''.'' else normalize joined)"

text \<open>\<open>path.extname\<close> of a name without separators: the suffix from the last dot;
  empty when there is no dot, when the only dot leads the name, and for \<open>..\<close>.\<close>

definition extname :: "string \<Rightarrow> string" where
  "extname b =
     (let suffix = takeWhile (\<lambda>c. c \<noteq> CHR ''.'') (rev b)
      in if CHR ''.'' \<notin> set b \<or> length suffix + 1 = length b \<or> b = ''..'' then []
         else CHR ''.'' # rev suffix)"

definition basename :: "string \<Rightarrow> string" where
  "basename p = last (split_on CHR ''/'' p)"

definition dirname :: "string \<Rightarrow> string" where
  "dirname p =
     (let segs = filter (\<lambda>s. s \<noteq> []) (split_on CHR ''/'' p)
      in CHR ''/'' # join_segs (butlast segs))"

text \<open>A path lies in the sandbox when it is the root or below it.\<close>

definition within :: "string \<Rightarrow> string \<Rightarrow> bool" where
  "within root p = (p = root \<or> prefix (root @ ''/'') p)"

section \<open>The file system\<close>

text \<open>
  The file system is the list of its nodes, each under its absolute normalised path;
  the order of the list is the order in which the operating system enumerates a
  directory. The root directory always exists. A path with a trailing separator
  names a directory only.
\<close>

datatype node = File string | Dir

type_synonym filesystem = "(string \<times> node) list"

datatype io_error = ENOENT | EISDIR | ENOTDIR | EEXIST

definition strip_slash :: "string \<Rightarrow> string" where
  "strip_slash p = (if p \<noteq> ''/'' \<and> p \<noteq> [] \<and> last p = CHR ''/'' then butlast p else p)"

definition fs_stat :: "filesystem \<Rightarrow> string \<Rightarrow> node option" where
  "fs_stat fs p =
     (if p = ''/'' then Some Dir
      else if p \<noteq> [] \<and> last p = CHR ''/'' then
        (case map_of fs (butlast p) of Some Dir \<Rightarrow> Some Dir | _ \<Rightarrow> None)
      else map_of fs p)"

definition existsSync :: "filesystem \<Rightarrow> string \<Rightarrow> bool" where
  "existsSync fs p = (fs_stat fs p \<noteq> None)"

definition readFile :: "filesystem \<Rightarrow> string \<Rightarrow> io_error + string" where
  "readFile fs p =
     (case fs_stat fs p of
        None \<Rightarrow> Inl ENOENT
      | Some Dir \<Rightarrow> Inl EISDIR
      | Some (File c) \<Rightarrow> Inr c)"

text \<open>Storing a node keeps the place of a path already listed and appends a new one.\<close>

fun store :: "filesystem \<Rightarrow> string \<Rightarrow> node \<Rightarrow> filesystem" where
  "store [] p n = [(p, n)]"
| "store ((q, m) # fs) p n = (if q = p then (p, n) # fs else (q, m) # store fs p n)"

definition writeFile :: "filesystem \<Rightarrow> string \<Rightarrow> string \<Rightarrow> io_error + filesystem" where
  "writeFile fs p c =
     (if p = [] then Inl ENOENT
      else if last p = CHR ''/'' then Inl EISDIR
      else if fs_stat fs p = Some Dir then Inl EISDIR
      else if fs_stat fs (dirname p) \<noteq> Some Dir then Inl ENOENT
      else Inr (store fs p (File c)))"

text \<open>The names directly under a directory, in the order in which the operating
  system enumerates them.\<close>

definition children :: "filesystem \<Rightarrow> string \<Rightarrow> string list" where
  "children fs d =
     map (\<lambda>(p, n). basename p)
       (filter (\<lambda>(p, n). p \<noteq> ''/'' \<and> dirname p = strip_slash d) fs)"

text \<open>
  \<open>index.js\<close> takes \<open>fs\<close> from fs-extra, whose \<open>readdir\<close> is that of graceful-fs: it
  sorts the names with \<open>Array.prototype.sort\<close> before it hands them over. Without a
  comparison function the sort orders strings by their UTF-16 code units. On UTF-8
  bytes this is the order of the bytes, except that the lead bytes EE and EF (of the
  code points U+E000 to U+FFFF) come after the lead bytes F0 to F4 (of the code
  points above U+FFFF, which are surrogate pairs in UTF-16); the key exchanges EE and
  EF with FE and FF, two bytes that UTF-8 does not use.
\<close>

definition codeUnitOrderKey :: "string \<Rightarrow> string" where
  "codeUnitOrderKey s =
     map (\<lambda>b. if b = CHR 0xEE then CHR 0xFE else if b = CHR 0xEF then CHR 0xFF
              else if b = CHR 0xFE then CHR 0xEE else if b = CHR 0xFF then CHR 0xEF
              else b) s"

text \<open>\<open>fs.readdir\<close>: the sorted names directly under a directory.\<close>

definition readdir :: "filesystem \<Rightarrow> string \<Rightarrow> io_error + string list" where
  "readdir fs d =
     (case fs_stat fs d of
        None \<Rightarrow> Inl ENOENT
      | Some (File c) \<Rightarrow> Inl ENOTDIR
      | Some Dir \<Rightarrow> Inr (sort_key codeUnitOrderKey (children fs d)))"

text \<open>\<open>fs.ensureDir\<close>: creates the directory and every missing ancestor; fails on a
  file in the way.\<close>

fun mkdirs :: "filesystem \<Rightarrow> string \<Rightarrow> string list \<Rightarrow> io_error + filesystem" where
  "mkdirs fs cur [] = Inr fs"
| "mkdirs fs cur (s # ss) =
     (let p = (if cur = ''/'' then CHR ''/'' # s else cur @ CHR ''/'' # s)
      in case map_of fs p of
           Some (File c) \<Rightarrow> Inl ENOTDIR
         | Some Dir \<Rightarrow> mkdirs fs p ss
         | None \<Rightarrow> mkdirs (fs @ [(p, Dir)]) p ss)"

definition ensureDir :: "filesystem \<Rightarrow> string \<Rightarrow> io_error + filesystem" where
  "ensureDir fs p = mkdirs fs ''/'' (filter (\<lambda>s. s \<noteq> []) (split_on CHR ''/'' p))"

section \<open>Strings\<close>

text \<open>
  The string built-ins of JavaScript follow Unicode: \<open>trim\<close> and the class \<open>\s\<close> of a
  regular expression know the white space of every script, \<open>toUpperCase\<close> and
  \<open>toLowerCase\<close> the letters of every script. On a string of ASCII characters they
  are defined here in full: the white space is tab, line feed, vertical tab, form
  feed, carriage return and space, and only the letters a to z and A to Z change
  case. On every other string they are what the runtime gives: the model takes the
  runtime's functions for those strings as a parameter.
\<close>

record runtime =
  rt_trim :: "string \<Rightarrow> string"
  rt_toUpperCase :: "string \<Rightarrow> string"
  rt_toLowerCase :: "string \<Rightarrow> string"
  rt_replaceWhiteSpace :: "string \<Rightarrow> string"

definition isAscii :: "string \<Rightarrow> bool" where
  "isAscii s = list_all (\<lambda>c. (of_char c :: nat) < 128) s"

definition isAsciiWhiteSpace :: "char \<Rightarrow> bool" where
  "isAsciiWhiteSpace c =
     (c \<in> set [CHR 0x09, CHR 0x0A, CHR 0x0B, CHR 0x0C, CHR 0x0D, CHR '' ''])"

definition trimAscii :: "string \<Rightarrow> string" where
  "trimAscii s = rev (dropWhile isAsciiWhiteSpace (rev (dropWhile isAsciiWhiteSpace s)))"

definition upperChar :: "char \<Rightarrow> char" where
  "upperChar c =
     (let n = (of_char c :: nat) in if 97 \<le> n \<and> n \<le> 122 then char_of (n - 32) else c)"

definition lowerChar :: "char \<Rightarrow> char" where
  "lowerChar c =
     (let n = (of_char c :: nat) in if 65 \<le> n \<and> n \<le> 90 then char_of (n + 32) else c)"

text \<open>\<open>String.prototype.trim\<close>, \<open>toUpperCase\<close> and \<open>toLowerCase\<close>.\<close>

definition trim :: "runtime \<Rightarrow> string \<Rightarrow> string" where
  "trim rt s = (if isAscii s then trimAscii s else rt_trim rt s)"

definition toUpperCase :: "runtime \<Rightarrow> string \<Rightarrow> string" where
  "toUpperCase rt s = (if isAscii s then map upperChar s else rt_toUpperCase rt s)"

definition toLowerCase :: "runtime \<Rightarrow> string \<Rightarrow> string" where
  "toLowerCase rt s = (if isAscii s then map lowerChar s else rt_toLowerCase rt s)"

text \<open>\<open>replace(/\s+/g, '-')\<close>: every run of white space becomes one dash.\<close>

definition whitespaceToDashAscii :: "string \<Rightarrow> string" where
  "whitespaceToDashAscii s =
     concat (map (\<lambda>run. if run \<noteq> [] \<and> isAsciiWhiteSpace (hd run) then ''-'' else run)
       (foldr (\<lambda>c runs. case runs of
                 [] \<Rightarrow> [[c]]
               | run # rest \<Rightarrow>
                   if run \<noteq> [] \<and> isAsciiWhiteSpace (hd run) = isAsciiWhiteSpace c
                   then (c # run) # rest else [c] # run # rest) s []))"

definition replaceWhiteSpace :: "runtime \<Rightarrow> string \<Rightarrow> string" where
  "replaceWhiteSpace rt s =
     (if isAscii s then whitespaceToDashAscii s else rt_replaceWhiteSpace rt s)"

text \<open>\<open>JSON.stringify\<close> of a string: the quotation mark, the backslash and the control
  characters are escaped, everything else stands for itself.\<close>

definition hexDigit :: "nat \<Rightarrow> char" where
  "hexDigit n = ''0123456789abcdef'' ! (n mod 16)"

definition quoteJSONChar :: "char \<Rightarrow> string" where
  "quoteJSONChar c =
     (let n = (of_char c :: nat)
      in if n = 0x22 then [CHR 0x5C, CHR 0x22]
         else if n = 0x5C then [CHR 0x5C, CHR 0x5C]
         else if n = 0x08 then [CHR 0x5C, CHR ''b'']
         else if n = 0x09 then [CHR 0x5C, CHR ''t'']
         else if n = 0x0A then [CHR 0x5C, CHR ''n'']
         else if n = 0x0C then [CHR 0x5C, CHR ''f'']
         else if n = 0x0D then [CHR 0x5C, CHR ''r'']
         else if n < 0x20 then
           [CHR 0x5C, CHR ''u'', CHR ''0'', CHR ''0'', hexDigit (n div 16), hexDigit n]
         else [c])"

definition quoteJSONString :: "string \<Rightarrow> string" where
  "quoteJSONString s = CHR 0x22 # concat (map quoteJSONChar s) @ [CHR 0x22]"

definition endsWith :: "string \<Rightarrow> string \<Rightarrow> bool" where
  "endsWith s t = suffix t s"

definition startsWith :: "string \<Rightarrow> string \<Rightarrow> bool" where
  "startsWith s t = prefix t s"

section \<open>The registry and the host's state\<close>

text \<open>
  The three Mongoose models (\<open>models/User\<close>, \<open>models/Bot\<close>, \<open>models/AuthSession\<close>) are
  required by \<open>index.js\<close>; their documents carry the fields that \<open>index.js\<close> reads and
  writes. Document ids are the strings that \<open>toString()\<close> gives; times are
  milliseconds.
\<close>

type_synonym objectId = string

datatype bot_status = Stopped | Running

record bot =
  b_id :: objectId
  b_name :: string
  b_owner :: objectId
  b_path :: string
  b_status :: bot_status
  b_createdAt :: nat
  b_lastStarted :: "nat option"
  b_lastStopped :: "nat option"

record user =
  u_id :: objectId
  u_discordId :: string
  u_username :: string
  u_avatar :: string
  u_tier :: string

text \<open>Modelled from the spec: the schema of \<open>models/AuthSession\<close> is not among the
  sources; an AuthCode holds the code string, the bound external identity, display
  metadata, the issuance timestamp and the used flag, which a new document has
  unset.\<close>

record authSession =
  code :: string
  discordId :: string
  username :: string
  avatar :: string
  used :: bool
  usedAt :: "nat option"
  issuedAt :: nat

text \<open>The handle of a child process, which \<open>spawn\<close> returns: the process has the
  given process id.\<close>

datatype child = Child nat

record state =
  fs :: filesystem
  bots :: "bot list"
  users :: "user list"
  authSessions :: "authSession list"
  botProcesses :: "objectId \<rightharpoonup> child"
  processes :: "(nat \<times> objectId \<times> string) list"
  signalled :: "child list"

text \<open>\<open>Bot.findOne({ _id: id, owner: userId })\<close>, \<open>bot.save()\<close> and
  \<open>Bot.countDocuments({ owner: userId })\<close>.\<close>

definition findBot :: "state \<Rightarrow> objectId \<Rightarrow> objectId \<Rightarrow> bot option" where
  "findBot st botId userId = find (\<lambda>b. b_id b = botId \<and> b_owner b = userId) (bots st)"

definition saveBot :: "bot \<Rightarrow> state \<Rightarrow> state" where
  "saveBot b st = st\<lparr>bots := map (\<lambda>b'. if b_id b' = b_id b then b else b') (bots st)\<rparr>"

definition countBots :: "state \<Rightarrow> objectId \<Rightarrow> nat" where
  "countBots st userId = length (filter (\<lambda>b. b_owner b = userId) (bots st))"

section \<open>Reading and writing a workload's files\<close>

datatype file_response =
    BotNotFound404
  | FileNotFound404
  | FileContent200 string
  | FileSaved200
  | ServerError500

text \<open>The \<open>success\<close> field of the JSON body.\<close>

fun file_success :: "file_response \<Rightarrow> bool" where
  "file_success (FileContent200 c) = True"
| "file_success FileSaved200 = True"
| "file_success r = False"

text \<open>\<open>GET /bot/:id/file\<close>. The query's \<open>filePath\<close> is \<open>None\<close> when it is not a
  string; \<open>path.join\<close> then throws and the handler answers 500.\<close>

definition get_file :: "objectId \<Rightarrow> objectId \<Rightarrow> string option \<Rightarrow> state \<Rightarrow> file_response" where
  "get_file userId botId filePath st =
     (case findBot st botId userId of
        None \<Rightarrow> BotNotFound404
      | Some theBot \<Rightarrow>
          (case filePath of
             None \<Rightarrow> ServerError500
           | Some rel \<Rightarrow>
               (let fullPath = path_join [b_path theBot, rel]
                in if \<not> existsSync (fs st) fullPath then FileNotFound404
                   else (case readFile (fs st) fullPath of
                           Inl e \<Rightarrow> ServerError500
                         | Inr content \<Rightarrow> FileContent200 content))))"

text \<open>\<open>POST /bot/:id/file\<close>.\<close>

definition post_file ::
  "objectId \<Rightarrow> objectId \<Rightarrow> string option \<Rightarrow> string \<Rightarrow> state \<Rightarrow> file_response \<times> state" where
  "post_file userId botId filePath content st =
     (case findBot st botId userId of
        None \<Rightarrow> (BotNotFound404, st)
      | Some theBot \<Rightarrow>
          (case filePath of
             None \<Rightarrow> (ServerError500, st)
           | Some rel \<Rightarrow>
               (let fullPath = path_join [b_path theBot, rel]
                in case writeFile (fs st) fullPath content of
                     Inl e \<Rightarrow> (ServerError500, st)
                   | Inr fs' \<Rightarrow> (FileSaved200, st\<lparr>fs := fs'\<rparr>))))"

text \<open>A plain path segment: a non-empty name that holds no separator and is neither
  \<open>.\<close> nor \<open>..\<close>.\<close>

definition clean_seg :: "string \<Rightarrow> bool" where
  "clean_seg s = (s \<noteq> [] \<and> CHR ''/'' \<notin> set s \<and> s \<noteq> ''.'' \<and> s \<noteq> ''..'')"

text \<open>The relative path of \<open>k\<close> parent segments followed by a name: \<open>../../secret\<close> is
  \<open>parents 2 ''secret''\<close>.\<close>

definition parents :: "nat \<Rightarrow> string \<Rightarrow> string" where
  "parents k name = concat (replicate k ''../'') @ name"

section \<open>The credential broker\<close>

text \<open>\<open>generateCode\<close>: six characters of the alphabet without I, O, 0 and 1. \<open>rnd i\<close>
  is the \<open>i\<close>-th value of \<open>Math.floor(Math.random() * chars.length)\<close>, a number below
  \<open>chars.length\<close>.\<close>

definition chars :: string where
  "chars = ''ABCDEFGHJKLMNPQRSTUVWXYZ23456789''"

definition generateCode :: "(nat \<Rightarrow> nat) \<Rightarrow> string" where
  "generateCode rnd = map (\<lambda>i. chars ! (rnd i mod length chars)) [0..<6]"

record interaction_user =
  iu_id :: string
  iu_username :: string
  iu_avatarURL :: string

text \<open>\<open>handleVerificationCommand\<close>: marks every unused session of the user as used,
  then saves a session with the new code. The reply and the direct message that carry
  the code to the user change nothing in the host.\<close>

definition handleVerificationCommand ::
  "(nat \<Rightarrow> nat) \<Rightarrow> nat \<Rightarrow> interaction_user \<Rightarrow> state \<Rightarrow> string \<times> state" where
  "handleVerificationCommand rnd now u st =
     (let newCode = generateCode rnd;
          updated = map (\<lambda>a. if discordId a = iu_id u \<and> used a = False
                                then a\<lparr>used := True\<rparr> else a) (authSessions st);
          authSession = \<lparr>code = newCode, discordId = iu_id u, username = iu_username u,
                          avatar = iu_avatarURL u, used = False, usedAt = None,
                          issuedAt = now\<rparr>
      in (newCode, st\<lparr>authSessions := updated @ [authSession]\<rparr>))"

record session =
  s_userId :: objectId
  s_discordId :: string
  s_username :: string
  s_tier :: string

datatype login_response =
    LoginMissingCode
  | LoginInvalidCode
  | LoginRedirectDashboard session

text \<open>\<open>document.save()\<close> on the document that \<open>findOne\<close> returned: the first one that
  matches.\<close>

fun update_first :: "('a \<Rightarrow> bool) \<Rightarrow> ('a \<Rightarrow> 'a) \<Rightarrow> 'a list \<Rightarrow> 'a list" where
  "update_first P f [] = []"
| "update_first P f (x # xs) = (if P x then f x # xs else x # update_first P f xs)"

text \<open>\<open>POST /login\<close>. The body's \<open>code\<close> is \<open>None\<close> when the field is absent; an absent
  and an empty code are falsy. \<open>freshId\<close> is the id a new user document gets.\<close>

definition post_login ::
  "runtime \<Rightarrow> nat \<Rightarrow> objectId \<Rightarrow> string option \<Rightarrow> state \<Rightarrow> login_response \<times> state"
  where
  "post_login rt now freshId bodyCode st =
     (case bodyCode of
        None \<Rightarrow> (LoginMissingCode, st)
      | Some c \<Rightarrow>
          if c = [] then (LoginMissingCode, st)
          else
            (let cleanCode = toUpperCase rt (trim rt c)
             in case find (\<lambda>a. code a = cleanCode \<and> used a = False) (authSessions st) of
                  None \<Rightarrow> (LoginInvalidCode, st)
                | Some authSession \<Rightarrow>
                    (let found = find (\<lambda>u. u_discordId u = discordId authSession) (users st);
                         theUser = (case found of
                                      Some u \<Rightarrow> u
                                    | None \<Rightarrow> \<lparr>u_id = freshId,
                                               u_discordId = discordId authSession,
                                               u_username = username authSession,
                                               u_avatar = avatar authSession,
                                               u_tier = ''free''\<rparr>);
                         users' = (case found of
                                     Some u \<Rightarrow> users st
                                   | None \<Rightarrow> users st @ [theUser]);
                         sessions' = update_first
                                       (\<lambda>a. code a = cleanCode \<and> used a = False)
                                       (\<lambda>a. a\<lparr>used := True, usedAt := Some now\<rparr>)
                                       (authSessions st)
                     in (LoginRedirectDashboard
                           \<lparr>s_userId = u_id theUser, s_discordId = u_discordId theUser,
                            s_username = u_username theUser, s_tier = u_tier theUser\<rparr>,
                         st\<lparr>users := users', authSessions := sessions'\<rparr>))))"

text \<open>The unused codes that an external identity holds.\<close>

definition unused_codes :: "state \<Rightarrow> string \<Rightarrow> authSession list" where
  "unused_codes st d = filter (\<lambda>a. discordId a = d \<and> used a = False) (authSessions st)"

section \<open>The process supervisor\<close>

definition possibleFiles :: "string list" where
  "possibleFiles = [''index.js'', ''app.js'', ''main.js'', ''bot.js'']"

text \<open>\<open>findMainFile\<close>: \<open>None\<close> is the source's \<open>null\<close>. A failing \<open>readdir\<close> is caught
  and logged.\<close>

definition findMainFile :: "filesystem \<Rightarrow> string \<Rightarrow> string option" where
  "findMainFile files botDir =
     (case find (\<lambda>file. existsSync files (path_join [botDir, file])) possibleFiles of
        Some file \<Rightarrow> Some (path_join [botDir, file])
      | None \<Rightarrow>
          (case readdir files botDir of
             Inl e \<Rightarrow> None
           | Inr names \<Rightarrow>
               (case filter (\<lambda>f. endsWith f ''.js'') names of
                  [] \<Rightarrow> None
                | f # jsFiles \<Rightarrow> Some (path_join [botDir, f]))))"

text \<open>
  What \<open>spawn\<close> does, as Node's \<open>child_process\<close> documents it: it returns the handle
  of the started process; or it throws; or, when the operating system cannot start
  the process (the program or the working directory is missing, the process limit
  is reached), it returns a handle and reports the failure later in the handle's
  \<open>error\<close> event.
\<close>

datatype spawn_result = Spawned nat | SpawnErrorEvent | SpawnThrows

datatype start_response =
    StartBotNotFound
  | StartAlreadyRunning
  | StartMainFileNotFound
  | StartStarted
  | StartError
  | StartHostExit

text \<open>The \<open>success\<close> field of the JSON body; a host that exits sends no body.\<close>

fun start_success :: "start_response \<Rightarrow> bool" where
  "start_success StartAlreadyRunning = True"
| "start_success StartStarted = True"
| "start_success r = False"

text \<open>
  \<open>POST /bot/:id/start\<close>, from the point where its workload was looked up, runs in two
  turns. In the first turn the handler tests the handle table and, unless it answers
  there, calls \<open>findMainFile\<close> and awaits its result. Where no file of a conventional
  name exists, \<open>findMainFile\<close> awaits \<open>readdir\<close>, and the handlers of other requests
  run until the directory has been read.
\<close>

datatype start_stage = Answered start_response | Awaiting bot "string option"

definition start_check :: "objectId \<Rightarrow> objectId \<Rightarrow> state \<Rightarrow> start_stage" where
  "start_check userId botId st =
     (case findBot st botId userId of
        None \<Rightarrow> Answered StartBotNotFound
      | Some theBot \<Rightarrow>
          if botProcesses st (b_id theBot) \<noteq> None then Answered StartAlreadyRunning
          else Awaiting theBot (findMainFile (fs st) (b_path theBot)))"

text \<open>
  In the second turn the handler answers that no entry file was found, or spawns
  the process, with no second look at the handle table. A process that starts is
  entered in the table, replacing what the table holds for the workload, and in the
  list of the host's live child processes, with its workload and entry file. A throwing \<open>spawn\<close> is caught by the handler. The
  handler listens to \<open>data\<close> and \<open>close\<close> only: the \<open>error\<close> event of a failed spawn
  comes while the handler awaits \<open>bot.save()\<close>, has no listener and so is an uncaught
  exception, on which the handler at the end of \<open>index.js\<close> exits the host with
  status 1; no response is sent, and the handle table goes with the host.
\<close>

definition start_resume ::
  "spawn_result \<Rightarrow> nat \<Rightarrow> bot \<Rightarrow> string option \<Rightarrow> state \<Rightarrow> start_response \<times> state"
  where
  "start_resume sp now theBot found st =
     (case found of
        None \<Rightarrow> (StartMainFileNotFound, st)
      | Some mainFile \<Rightarrow>
          (case sp of
             SpawnThrows \<Rightarrow> (StartError, st)
           | SpawnErrorEvent \<Rightarrow> (StartHostExit, st)
           | Spawned pid \<Rightarrow>
               (StartStarted,
                saveBot (theBot\<lparr>b_status := Running, b_lastStarted := Some now\<rparr>)
                  (st\<lparr>botProcesses := (botProcesses st)(b_id theBot \<mapsto> Child pid),
                      processes := processes st @ [(pid, b_id theBot, mainFile)]\<rparr>))))"

text \<open>A start call whose two turns no other call comes between.\<close>

definition post_start ::
  "spawn_result \<Rightarrow> nat \<Rightarrow> objectId \<Rightarrow> objectId \<Rightarrow> state \<Rightarrow> start_response \<times> state" where
  "post_start sp now userId botId st =
     (case start_check userId botId st of
        Answered response \<Rightarrow> (response, st)
      | Awaiting theBot found \<Rightarrow> start_resume sp now theBot found st)"

text \<open>
  Start calls that overlap. \<open>Arrives c userId botId\<close> is the first turn of call \<open>c\<close>,
  \<open>Resumes c sp now\<close> its second turn, in which \<open>spawn\<close> does \<open>sp\<close> at the time \<open>now\<close>. A
  run holds the host's state, the calls that await their second turn and the
  responses sent so far.
\<close>

datatype start_event = Arrives nat objectId objectId | Resumes nat spawn_result nat

record start_run =
  host :: state
  awaiting :: "(nat \<times> bot \<times> string option) list"
  answers :: "(nat \<times> start_response) list"

fun start_turn :: "start_event \<Rightarrow> start_run \<Rightarrow> start_run" where
  "start_turn (Arrives c userId botId) r =
     (case start_check userId botId (host r) of
        Answered response \<Rightarrow> r\<lparr>answers := answers r @ [(c, response)]\<rparr>
      | Awaiting theBot found \<Rightarrow> r\<lparr>awaiting := awaiting r @ [(c, theBot, found)]\<rparr>)"
| "start_turn (Resumes c sp now) r =
     (case map_of (awaiting r) c of
        None \<Rightarrow> r
      | Some (theBot, found) \<Rightarrow>
          (case start_resume sp now theBot found (host r) of
             (response, st') \<Rightarrow>
               r\<lparr>host := st',
                 awaiting := filter (\<lambda>a. fst a \<noteq> c) (awaiting r),
                 answers := answers r @ [(c, response)]\<rparr>))"

fun start_turns :: "start_event list \<Rightarrow> start_run \<Rightarrow> start_run" where
  "start_turns [] r = r"
| "start_turns (e # es) r = start_turns es (start_turn e r)"

text \<open>The \<open>close\<close> listener that the start handler registers for the process.\<close>

definition child_close :: "nat \<Rightarrow> objectId \<Rightarrow> state \<Rightarrow> state" where
  "child_close pid botId st =
     st\<lparr>botProcesses := (botProcesses st)(botId := None),
        processes := filter (\<lambda>p. fst p \<noteq> pid) (processes st),
        bots := map (\<lambda>b. if b_id b = botId then b\<lparr>b_status := Stopped\<rparr> else b) (bots st)\<rparr>"

text \<open>The live child processes of a workload.\<close>

definition processes_of :: "state \<Rightarrow> objectId \<Rightarrow> (nat \<times> objectId \<times> string) list" where
  "processes_of st botId = filter (\<lambda>p. fst (snd p) = botId) (processes st)"

datatype stop_response = StopBotNotFound | StopStopped

text \<open>\<open>POST /bot/:id/stop\<close>; \<open>signalled\<close> lists the handles that were sent SIGTERM.\<close>

definition post_stop :: "nat \<Rightarrow> objectId \<Rightarrow> objectId \<Rightarrow> state \<Rightarrow> stop_response \<times> state" where
  "post_stop now userId botId st =
     (case findBot st botId userId of
        None \<Rightarrow> (StopBotNotFound, st)
      | Some theBot \<Rightarrow>
          (let st' = (case botProcesses st (b_id theBot) of
                        Some botProcess \<Rightarrow>
                          st\<lparr>signalled := signalled st @ [botProcess],
                             botProcesses := (botProcesses st)(b_id theBot := None)\<rparr>
                      | None \<Rightarrow> st)
           in (StopStopped,
               saveBot (theBot\<lparr>b_status := Stopped, b_lastStopped := Some now\<rparr>) st')))"

section \<open>Listing a sandbox\<close>

datatype entry_type = Directory | RegularFile

record entry =
  e_name :: string
  e_path :: string
  e_type :: entry_type
  e_size :: nat
  e_extension :: string

text \<open>The comparison handed to \<open>structure.sort\<close>. \<open>localeCompare\<close> is the platform's
  string comparison (negative, zero or positive) and is a parameter here.\<close>

definition compareEntries :: "(string \<Rightarrow> string \<Rightarrow> int) \<Rightarrow> entry \<Rightarrow> entry \<Rightarrow> int" where
  "compareEntries localeCompare a b =
     (if e_type a = Directory \<and> e_type b \<noteq> Directory then - 1
      else if e_type a \<noteq> Directory \<and> e_type b = Directory then 1
      else localeCompare (e_name a) (e_name b))"

text \<open>\<open>Array.prototype.sort\<close> is a stable sort: here, insertion from the right, each
  element going before the first one it does not follow.\<close>

fun insert_sorted :: "('a \<Rightarrow> 'a \<Rightarrow> int) \<Rightarrow> 'a \<Rightarrow> 'a list \<Rightarrow> 'a list" where
  "insert_sorted cmp x [] = [x]"
| "insert_sorted cmp x (y # ys) =
     (if cmp x y \<le> 0 then x # y # ys else y # insert_sorted cmp x ys)"

definition array_sort :: "('a \<Rightarrow> 'a \<Rightarrow> int) \<Rightarrow> 'a list \<Rightarrow> 'a list" where
  "array_sort cmp xs = foldr (insert_sorted cmp) xs []"

text \<open>One turn of the loop over the items: the entry pushed for the item, none when
  \<open>stat\<close> fails.\<close>

definition entry_of :: "runtime \<Rightarrow> filesystem \<Rightarrow> string \<Rightarrow> string \<Rightarrow> entry list" where
  "entry_of rt files dir item =
     (case fs_stat files (path_join [dir, item]) of
        None \<Rightarrow> []
      | Some Dir \<Rightarrow>
          [\<lparr>e_name = item, e_path = item, e_type = Directory, e_size = 0,
            e_extension = []\<rparr>]
      | Some (File c) \<Rightarrow>
          [\<lparr>e_name = item, e_path = item, e_type = RegularFile, e_size = length c,
            e_extension = toLowerCase rt (extname item)\<rparr>])"

definition listed :: "string \<Rightarrow> bool" where
  "listed item = (\<not> (item = ''node_modules'' \<or> startsWith item ''.''))"

text \<open>\<open>getDirectoryStructure\<close>: the entries and the file system, which changes when
  the directory is created. Every failure is caught and gives the empty list.\<close>

definition getDirectoryStructure ::
  "runtime \<Rightarrow> (string \<Rightarrow> string \<Rightarrow> int) \<Rightarrow> string \<Rightarrow> filesystem
     \<Rightarrow> entry list \<times> filesystem" where
  "getDirectoryStructure rt localeCompare dir files =
     (if \<not> existsSync files dir then
        (case ensureDir files dir of
           Inl e \<Rightarrow> ([], files)
         | Inr files' \<Rightarrow> ([], files'))
      else
        (case readdir files dir of
           Inl e \<Rightarrow> ([], files)
         | Inr items \<Rightarrow>
             (array_sort (compareEntries localeCompare)
                (concat (map (entry_of rt files dir) (filter listed items))),
              files)))"

text \<open>The order that the comparison of the source puts on the entries, and what the
  listing promises: no file before a directory, and names of one kind ascending.\<close>

definition entry_le :: "(string \<Rightarrow> string \<Rightarrow> int) \<Rightarrow> entry \<Rightarrow> entry \<Rightarrow> bool" where
  "entry_le localeCompare a b = (compareEntries localeCompare a b \<le> 0)"

definition listing_order :: "(string \<Rightarrow> string \<Rightarrow> int) \<Rightarrow> entry \<Rightarrow> entry \<Rightarrow> bool" where
  "listing_order localeCompare a b =
     ((e_type a = Directory \<or> e_type b = RegularFile)
      \<and> (e_type a = e_type b \<longrightarrow> localeCompare (e_name a) (e_name b) \<le> 0))"

text \<open>A comparison of strings by their characters, one instance of \<open>localeCompare\<close>.\<close>

definition codeUnitCompare :: "string \<Rightarrow> string \<Rightarrow> int" where
  "codeUnitCompare a b = (if a < b then - 1 else if a = b then 0 else 1)"

section \<open>Creating a workload\<close>

text \<open>\<open>getBotLimit\<close>: \<open>limits[tier] || 1\<close>. For a key that the object inherits the lookup
  gives a function or an object, which \<open>||\<close> keeps and with which \<open>>=\<close> compares as
  false: \<open>None\<close>.\<close>

definition objectPrototypeKeys :: "string list" where
  "objectPrototypeKeys =
     [''constructor'', ''toString'', ''toLocaleString'', ''valueOf'', ''hasOwnProperty'',
      ''isPrototypeOf'', ''propertyIsEnumerable'', ''__proto__'', ''__defineGetter__'',
      ''__defineSetter__'', ''__lookupGetter__'', ''__lookupSetter__'']"

definition getBotLimit :: "string \<Rightarrow> nat option" where
  "getBotLimit tier =
     (if tier = ''free'' then Some 1
      else if tier = ''premium'' then Some 5
      else if tier = ''ultimate'' then Some 10
      else if tier \<in> set objectPrototypeKeys then None
      else Some 1)"

text \<open>The test \<open>userBots >= botLimit\<close>: the limit that rejects the request, if one
  does.\<close>

definition limitReached :: "nat \<Rightarrow> nat option \<Rightarrow> nat option" where
  "limitReached userBots botLimit =
     (case botLimit of
        None \<Rightarrow> None
      | Some l \<Rightarrow> if userBots \<ge> l then Some l else None)"

text \<open>\<open>fs.remove\<close>: the node and everything below it; a missing path is no error.\<close>

definition remove :: "filesystem \<Rightarrow> string \<Rightarrow> filesystem" where
  "remove files p = filter (\<lambda>(q, n). \<not> within p q) files"

text \<open>\<open>fs.move\<close> without \<open>overwrite\<close>: fails when the destination exists.\<close>

definition move :: "filesystem \<Rightarrow> string \<Rightarrow> string \<Rightarrow> io_error + filesystem" where
  "move files src dest =
     (if existsSync files dest then Inl EEXIST
      else (case readFile files src of
              Inl e \<Rightarrow> Inl e
            | Inr content \<Rightarrow>
                (case writeFile files dest content of
                   Inl e \<Rightarrow> Inl e
                 | Inr files' \<Rightarrow> Inr (remove files' src))))"

text \<open>\<open>zip.extractAllTo(botDir, true)\<close>: every entry of the archive, a name and its
  content, is written under the target; a name that ends in a separator is a
  directory. A failure leaves what was written before it.\<close>

fun extractAllTo ::
  "filesystem \<Rightarrow> string \<Rightarrow> (string \<times> string) list \<Rightarrow> (io_error \<times> filesystem) + filesystem"
  where
  "extractAllTo files target [] = Inr files"
| "extractAllTo files target ((entryName, content) # entries) =
     (let p = path_join [target, entryName]
      in if entryName \<noteq> [] \<and> last entryName = CHR ''/'' then
           (case ensureDir files p of
              Inl e \<Rightarrow> Inl (e, files)
            | Inr files' \<Rightarrow> extractAllTo files' target entries)
         else
           (case ensureDir files (dirname p) of
              Inl e \<Rightarrow> Inl (e, files)
            | Inr files' \<Rightarrow>
                (case writeFile files' p content of
                   Inl e \<Rightarrow> Inl (e, files')
                 | Inr files'' \<Rightarrow> extractAllTo files'' target entries)))"

text \<open>The upload that multer stored before the handler runs: the client's file name
  and the temporary path of the stored file.\<close>

record upload =
  originalname :: string
  tmp_path :: string

datatype create_response =
    CreateNameMissing
  | CreateLimitReached nat
  | CreateNoFileOrCode
  | CreateCreated objectId
  | CreateError

text \<open>The text of \<open>package.json\<close>: \<open>JSON.stringify(packageJson, null, 2)\<close>, where the
  name is \<open>botName.toLowerCase().replace(/\s+/g, '-')\<close>.\<close>

definition packageJson :: "runtime \<Rightarrow> string \<Rightarrow> string" where
  "packageJson rt botName =
     ''{'' @ [CHR 0x0A] @
     ''  \"name\": '' @ quoteJSONString (replaceWhiteSpace rt (toLowerCase rt botName))
       @ '','' @ [CHR 0x0A] @
     ''  \"version\": \"1.0.0\",'' @ [CHR 0x0A] @
     ''  \"description\": \"Discord Bot\",'' @ [CHR 0x0A] @
     ''  \"main\": \"index.js\",'' @ [CHR 0x0A] @
     ''  \"dependencies\": {'' @ [CHR 0x0A] @
     ''    \"discord.js\": \"^14.0.0\"'' @ [CHR 0x0A] @
     ''  },'' @ [CHR 0x0A] @
     ''  \"scripts\": {'' @ [CHR 0x0A] @
     ''    \"start\": \"node index.js\"'' @ [CHR 0x0A] @
     ''  }'' @ [CHR 0x0A] @
     ''}''"

text \<open>The middle of the handler: the uploaded file or the inline code goes into the
  new directory. \<open>unzip\<close> is AdmZip's reading of an archive, \<open>None\<close> when the bytes are
  no archive. The left result is the answer of a handler that stops here, with the
  file system it leaves.\<close>

definition place_content ::
  "runtime \<Rightarrow> (string \<Rightarrow> (string \<times> string) list option) \<Rightarrow> filesystem \<Rightarrow> string
     \<Rightarrow> upload option \<Rightarrow> string option \<Rightarrow> (create_response \<times> filesystem) + filesystem"
  where
  "place_content rt unzip files botDir file botCode =
     (case file of
        Some f \<Rightarrow>
          if toLowerCase rt (extname (basename (originalname f))) = ''.zip'' then
            (case readFile files (tmp_path f) of
               Inl e \<Rightarrow> Inl (CreateError, files)
             | Inr bytes \<Rightarrow>
                 (case unzip bytes of
                    None \<Rightarrow> Inl (CreateError, files)
                  | Some entries \<Rightarrow>
                      (case extractAllTo files botDir entries of
                         Inl (e, files') \<Rightarrow> Inl (CreateError, files')
                       | Inr files' \<Rightarrow> Inr (remove files' (tmp_path f)))))
          else
            (case move files (tmp_path f) (path_join [botDir, originalname f]) of
               Inl e \<Rightarrow> Inl (CreateError, files)
             | Inr files' \<Rightarrow> Inr (remove files' (tmp_path f)))
      | None \<Rightarrow>
          (case botCode of
             None \<Rightarrow> Inl (CreateNoFileOrCode, files)
           | Some c \<Rightarrow>
               if c = [] then Inl (CreateNoFileOrCode, files)
               else (case writeFile files (path_join [botDir, ''index.js'']) c of
                       Inl e \<Rightarrow> Inl (CreateError, files)
                     | Inr files' \<Rightarrow> Inr files')))"

text \<open>\<open>POST /bot/create\<close>. \<open>appDir\<close> is the directory of \<open>index.js\<close>, \<open>freshId\<close> the id
  that the new document gets; the caller's id and tier come from the session.\<close>

definition post_create ::
  "runtime \<Rightarrow> (string \<Rightarrow> (string \<times> string) list option) \<Rightarrow> string \<Rightarrow> nat \<Rightarrow> objectId
     \<Rightarrow> objectId \<Rightarrow> string \<Rightarrow> string option \<Rightarrow> string option \<Rightarrow> upload option \<Rightarrow> state
     \<Rightarrow> create_response \<times> state" where
  "post_create rt unzip appDir now freshId userId tier botName botCode file st =
     (case botName of
        None \<Rightarrow> (CreateNameMissing, st)
      | Some name \<Rightarrow>
          if name = [] then (CreateNameMissing, st)
          else
            (let userBots = countBots st userId; botLimit = getBotLimit tier
             in case limitReached userBots botLimit of
                  Some l \<Rightarrow> (CreateLimitReached l, st)
                | None \<Rightarrow>
                  (let botDir = path_join [appDir, ''bots'', userId, name]
                   in case ensureDir (fs st) botDir of
                        Inl e \<Rightarrow> (CreateError, st)
                      | Inr files1 \<Rightarrow>
                          (case place_content rt unzip files1 botDir file botCode of
                             Inl (response, files2) \<Rightarrow> (response, st\<lparr>fs := files2\<rparr>)
                           | Inr files2 \<Rightarrow>
                               (case writeFile files2 (path_join [botDir, ''package.json''])
                                       (packageJson rt name) of
                                  Inl e \<Rightarrow> (CreateError, st\<lparr>fs := files2\<rparr>)
                                | Inr files3 \<Rightarrow>
                                    (CreateCreated freshId,
                                     st\<lparr>fs := files3,
                                        bots := bots st @
                                          [\<lparr>b_id = freshId, b_name = name, b_owner = userId,
                                            b_path = botDir, b_status = Stopped,
                                            b_createdAt = now, b_lastStarted = None,
                                            b_lastStopped = None\<rparr>]\<rparr>))))))"

section \<open>Example states\<close>

text \<open>A host with one tenant \<open>u1\<close> and one workload \<open>b1\<close> under \<open>/srv/bots/u1/b1\<close>.\<close>

definition st1 :: state where
  "st1 = \<lparr>fs = [(''/srv'', Dir), (''/srv/bots'', Dir), (''/srv/bots/u1'', Dir),
                 (''/srv/bots/u1/b1'', Dir), (''/srv/bots/u1/b1/index.js'', File ''x'')],
          bots = [\<lparr>b_id = ''b1'', b_name = ''b1'', b_owner = ''u1'',
                    b_path = ''/srv/bots/u1/b1'', b_status = Stopped, b_createdAt = 0,
                    b_lastStarted = None, b_lastStopped = None\<rparr>],
          users = [], authSessions = [], botProcesses = Map.empty, processes = [],
          signalled = []\<rparr>"


text \<open>A chat user, and the host after the code \<open>AB12CD\<close> was issued to that user at
  time 0.\<close>

definition user1 :: interaction_user where
  "user1 = \<lparr>iu_id = ''d1'', iu_username = ''ann'', iu_avatarURL = ''a.png''\<rparr>"

definition st_code :: state where
  "st_code = st1\<lparr>authSessions :=
     [\<lparr>code = ''AB12CD'', discordId = ''d1'', username = ''ann'', avatar = ''a.png'',
       used = False, usedAt = None, issuedAt = 0\<rparr>]\<rparr>"


definition fs_file_first :: filesystem where
  "fs_file_first = [(''/r'', Dir), (''/r/b.txt'', File ''hello''), (''/r/a'', Dir)]"

definition fs_dir_first :: filesystem where
  "fs_dir_first = [(''/r'', Dir), (''/r/a'', Dir), (''/r/b.txt'', File ''hello'')]"

text \<open>A runtime that leaves every string with a character outside ASCII as it is;
  on ASCII strings all runtimes agree.\<close>

definition plain_runtime :: runtime where
  "plain_runtime = \<lparr>rt_trim = (\<lambda>s. s), rt_toUpperCase = (\<lambda>s. s),
     rt_toLowerCase = (\<lambda>s. s), rt_replaceWhiteSpace = (\<lambda>s. s)\<rparr>"

text \<open>The same host where the workload holds no file of a conventional name, so that
  its entry file \<open>run.js\<close> is found by reading the directory; and a fresh run of
  start calls on that host.\<close>

definition st2 :: state where
  "st2 = st1\<lparr>fs := [(''/srv'', Dir), (''/srv/bots'', Dir), (''/srv/bots/u1'', Dir),
                      (''/srv/bots/u1/b1'', Dir), (''/srv/bots/u1/b1/run.js'', File ''x'')]\<rparr>"

definition run2 :: start_run where
  "run2 = \<lparr>host = st2, awaiting = [], answers = []\<rparr>"

section \<open>Properties\<close>

subsection \<open>Path resolution\<close>

lemma split_on_not_Nil: "split_on c s \<noteq> []"
  by (induction s) (auto split: list.splits)

lemma split_on_append: "split_on c (a @ c # b) = split_on c a @ split_on c b"
proof (induction a)
  case Nil
  show ?case by simp
next
  case (Cons x a)
  obtain s ss where sa: "split_on c a = s # ss"
    using split_on_not_Nil [of c a] by (cases "split_on c a") auto
  show ?case using Cons sa by simp
qed

lemma split_on_no_sep: "c \<notin> set s \<Longrightarrow> split_on c s = [s]"
  by (induction s) auto

lemma split_on_parents:
  "CHR ''/'' \<notin> set name \<Longrightarrow>
   split_on CHR ''/'' (parents k name) = replicate k ''..'' @ [name]"
proof (induction k)
  case 0
  then show ?case by (simp add: parents_def split_on_no_sep)
next
  case (Suc k)
  have "parents (Suc k) name = ''..'' @ CHR ''/'' # parents k name"
    by (simp add: parents_def)
  then have "split_on CHR ''/'' (parents (Suc k) name)
      = split_on CHR ''/'' ''..'' @ split_on CHR ''/'' (parents k name)"
    by (simp only: split_on_append)
  then show ?case using Suc by simp
qed

lemma split_on_join_segs:
  "segs \<noteq> [] \<Longrightarrow> \<forall>s\<in>set segs. CHR ''/'' \<notin> set s \<Longrightarrow>
   split_on CHR ''/'' (join_segs segs) = segs"
proof (induction segs rule: join_segs.induct)
  case 1
  then show ?case by simp
next
  case (2 s)
  then show ?case by (simp add: split_on_no_sep)
next
  case (3 s t ss)
  have "split_on CHR ''/'' (join_segs (s # t # ss))
      = split_on CHR ''/'' s @ split_on CHR ''/'' (join_segs (t # ss))"
    by (simp only: join_segs.simps split_on_append)
  then show ?case using 3 by (simp add: split_on_no_sep)
qed

lemma split_on_abs:
  "segs \<noteq> [] \<Longrightarrow> \<forall>s\<in>set segs. CHR ''/'' \<notin> set s \<Longrightarrow>
   split_on CHR ''/'' (CHR ''/'' # join_segs segs) = [] # segs"
  by (simp add: split_on_join_segs)

lemma normalizeString_append:
  "normalizeString a res (xs @ ys) = normalizeString a (normalizeString a res xs) ys"
  by (induction xs arbitrary: res) auto

lemma normalizeString_clean:
  "\<forall>s\<in>set segs. clean_seg s \<Longrightarrow> normalizeString a res segs = res @ segs"
  by (induction segs arbitrary: res) (auto simp: clean_seg_def)

lemma normalizeString_parents:
  "\<forall>s\<in>set res. clean_seg s \<Longrightarrow>
   normalizeString False res (replicate k ''..'') = take (length res - k) res"
proof (induction k arbitrary: res)
  case 0
  then show ?case by simp
next
  case (Suc k)
  show ?case
  proof (cases "res = []")
    case True
    then show ?thesis using Suc.IH [of "[]"] by simp
  next
    case False
    then have l: "last res \<noteq> ''..''"
      using Suc.prems last_in_set [of res] by (auto simp: clean_seg_def)
    have c: "\<forall>s\<in>set (butlast res). clean_seg s"
      using Suc.prems by (auto dest: in_set_butlastD)
    have "normalizeString False res (replicate (Suc k) ''..'')
        = normalizeString False (butlast res) (replicate k ''..'')"
      using False l by simp
    also have "\<dots> = take (length (butlast res) - k) (butlast res)"
      using Suc.IH [OF c] .
    also have "\<dots> = take (length res - Suc k) res"
      by (simp add: butlast_conv_take min_def)
    finally show ?thesis .
  qed
qed

lemma join_segs_Nil: "join_segs segs = [] \<longleftrightarrow> (segs = [] \<or> segs = [[]])"
  by (induction segs rule: join_segs.induct) auto

lemma last_join_segs: "name \<noteq> [] \<Longrightarrow> last (join_segs (segs @ [name])) = last name"
  by (induction segs rule: join_segs.induct) (auto simp: join_segs_Nil)

lemma join_segs_snoc_not_Nil: "name \<noteq> [] \<Longrightarrow> join_segs (segs @ [name]) \<noteq> []"
  by (cases segs) (auto simp: join_segs_Nil)

lemma path_join_parents:
  assumes rs: "\<forall>s\<in>set rs. clean_seg s" and n: "rs \<noteq> []" and name: "clean_seg name"
  shows "path_join [CHR ''/'' # join_segs rs, parents k name]
       = CHR ''/'' # join_segs (take (length rs - k) rs @ [name])"
proof -
  let ?root = "CHR ''/'' # join_segs rs"
  let ?joined = "?root @ CHR ''/'' # parents k name"
  have nm: "name \<noteq> []" "CHR ''/'' \<notin> set name" using name by (auto simp: clean_seg_def)
  have pne: "parents k name \<noteq> []" using nm by (simp add: parents_def)
  have seps: "\<forall>s\<in>set rs. CHR ''/'' \<notin> set s" using rs by (auto simp: clean_seg_def)
  have sp: "split_on CHR ''/'' ?joined = [] # rs @ replicate k ''..'' @ [name]"
    using split_on_append [of "CHR ''/''" ?root "parents k name"]
      split_on_abs [OF n seps] split_on_parents [OF nm(2)] by simp
  have ns: "normalizeString False [] (split_on CHR ''/'' ?joined)
      = take (length rs - k) rs @ [name]"
  proof -
    have "normalizeString False [] ([] # rs @ replicate k ''..'' @ [name])
        = normalizeString False (normalizeString False (normalizeString False [] rs)
            (replicate k ''..'')) [name]"
      by (simp add: normalizeString_append)
    also have "\<dots> = normalizeString False (take (length rs - k) rs) [name]"
      using normalizeString_clean [OF rs, of False "[]"] normalizeString_parents [OF rs]
      by simp
    also have "\<dots> = take (length rs - k) rs @ [name]"
      using name by (simp add: clean_seg_def)
    finally show ?thesis using sp by simp
  qed
  have lastj: "last ?joined = last name"
    using nm pne by (simp add: parents_def)
  have lastn: "last name \<noteq> CHR ''/''"
    by (metis last_in_set nm)
  have "path_join [?root, parents k name] = normalize ?joined"
    using pne by (simp add: path_join_def)
  also have "\<dots> = CHR ''/'' # join_segs (take (length rs - k) rs @ [name])"
    using ns lastj lastn join_segs_snoc_not_Nil [OF nm(1)]
    by (simp add: normalize_def Let_def del: split_on.simps)
  finally show ?thesis .
qed

lemma outside_root:
  assumes rs: "\<forall>s\<in>set rs. clean_seg s" and n: "2 \<le> length rs" and k: "2 \<le> k"
    and name: "clean_seg name"
  shows "\<not> within (CHR ''/'' # join_segs rs)
            (CHR ''/'' # join_segs (take (length rs - k) rs @ [name]))"
proof -
  let ?root = "CHR ''/'' # join_segs rs"
  let ?ts = "take (length rs - k) rs @ [name]"
  let ?target = "CHR ''/'' # join_segs ?ts"
  have rne: "rs \<noteq> []" using n by auto
  have seps: "\<forall>s\<in>set rs. CHR ''/'' \<notin> set s" using rs by (auto simp: clean_seg_def)
  have tseps: "\<forall>s\<in>set ?ts. CHR ''/'' \<notin> set s"
    using seps name by (auto simp: clean_seg_def dest: in_set_takeD)
  have sr: "split_on CHR ''/'' ?root = [] # rs"
    by (rule split_on_abs [OF rne seps])
  have st: "split_on CHR ''/'' ?target = [] # ?ts"
    by (rule split_on_abs [OF _ tseps]) simp
  have lt: "length (split_on CHR ''/'' ?target) \<le> length rs"
    using n k by (simp only: st) simp
  have "?target \<noteq> ?root"
  proof
    assume "?target = ?root"
    then have "length (split_on CHR ''/'' ?target) = length (split_on CHR ''/'' ?root)"
      by simp
    then show False using lt by (simp only: sr) simp
  qed
  moreover have "\<not> prefix (?root @ ''/'') ?target"
  proof
    assume "prefix (?root @ ''/'') ?target"
    then obtain t where "?target = ?root @ CHR ''/'' # t"
      by (auto simp: prefix_def)
    then have "split_on CHR ''/'' ?target
        = split_on CHR ''/'' ?root @ split_on CHR ''/'' t"
      by (simp only: split_on_append)
    then have "length (split_on CHR ''/'' ?target) \<ge> length rs + 1"
      by (simp only: sr) simp
    then show False using lt by simp
  qed
  ultimately show ?thesis by (simp only: within_def) simp
qed

lemma map_of_store: "map_of (store files p n) p = Some n"
  by (induction files) auto

lemma fs_stat_store:
  "p \<noteq> [] \<Longrightarrow> last p \<noteq> CHR ''/'' \<Longrightarrow> fs_stat (store files p n) p = Some n"
  by (auto simp: fs_stat_def map_of_store)

subsection \<open>C1: parent-directory segments in a relative path\<close>

text \<open>
  Claim C1, as amended. The read and write handlers resolve the relative path with
  \<open>path.join\<close> against the workload's root and check no containment. For every root
  of at least two plain segments and every relative path made of two or more parent
  segments followed by a plain name, the resolved path is the name under the ancestor
  that many levels up and lies outside the root; the write handler stores the content
  there and answers success whenever the directory of that path exists and the path
  is no directory, and the read handler returns the content of a file there. A
  request that does not succeed is answered as not found or as a server error, on
  every path.
\<close>

theorem C1_escape_written_outside_root:
  assumes bot: "findBot st botId userId = Some b"
    and root: "b_path b = CHR ''/'' # join_segs rs"
    and rs: "\<forall>s\<in>set rs. clean_seg s" and n: "2 \<le> length rs" and k: "2 \<le> k"
    and name: "clean_seg name"
    and target: "target = CHR ''/'' # join_segs (take (length rs - k) rs @ [name])"
  shows "path_join [b_path b, parents k name] = target
    \<and> \<not> within (b_path b) target
    \<and> (fs_stat (fs st) (dirname target) = Some Dir \<and> fs_stat (fs st) target \<noteq> Some Dir \<longrightarrow>
           post_file userId botId (Some (parents k name)) content st
             = (FileSaved200, st\<lparr>fs := store (fs st) target (File content)\<rparr>)
           \<and> fs_stat (store (fs st) target (File content)) target = Some (File content))
    \<and> (fs_stat (fs st) target = Some (File c) \<longrightarrow>
           get_file userId botId (Some (parents k name)) st = FileContent200 c)
    \<and> (file_success (get_file userId botId filePath st)
         \<or> get_file userId botId filePath st
             \<in> {BotNotFound404, FileNotFound404, ServerError500})
    \<and> (file_success (fst (post_file userId botId filePath content st))
         \<or> fst (post_file userId botId filePath content st)
             \<in> {BotNotFound404, ServerError500})"
proof -
  have rne: "rs \<noteq> []" using n by auto
  have nm: "name \<noteq> []" "CHR ''/'' \<notin> set name" using name by (auto simp: clean_seg_def)
  have pj: "path_join [b_path b, parents k name] = target"
    unfolding root target by (rule path_join_parents [OF rs rne name])
  have out: "\<not> within (b_path b) target"
    unfolding root target by (rule outside_root [OF rs n k name])
  have tne: "target \<noteq> []" by (simp add: target)
  have "last (join_segs (take (length rs - k) rs @ [name])) \<noteq> CHR ''/''"
    using last_join_segs [OF nm(1)] nm by (metis last_in_set)
  then have tl: "last target \<noteq> CHR ''/''"
    using join_segs_snoc_not_Nil [OF nm(1)] by (simp add: target)
  have w: "fs_stat (fs st) (dirname target) = Some Dir \<and> fs_stat (fs st) target \<noteq> Some Dir \<longrightarrow>
           post_file userId botId (Some (parents k name)) content st
             = (FileSaved200, st\<lparr>fs := store (fs st) target (File content)\<rparr>)
           \<and> fs_stat (store (fs st) target (File content)) target = Some (File content)"
    using bot pj tne tl by (simp add: post_file_def writeFile_def fs_stat_store)
  have r: "fs_stat (fs st) target = Some (File c) \<longrightarrow>
           get_file userId botId (Some (parents k name)) st = FileContent200 c"
    using bot pj by (simp add: get_file_def existsSync_def readFile_def)
  have g: "file_success (get_file userId botId filePath st)
         \<or> get_file userId botId filePath st
             \<in> {BotNotFound404, FileNotFound404, ServerError500}"
    by (simp add: get_file_def Let_def split: option.splits sum.splits)
  have p: "file_success (fst (post_file userId botId filePath content st))
         \<or> fst (post_file userId botId filePath content st)
             \<in> {BotNotFound404, ServerError500}"
    by (simp add: post_file_def Let_def split: option.splits sum.splits)
  show ?thesis using pj out w r g p by blast
qed


theorem C1_escape_witness:
  "path_join [''/srv/bots/u1/b1'', ''../../secret''] = ''/srv/bots/secret''
   \<and> \<not> within ''/srv/bots/u1/b1'' ''/srv/bots/secret''
   \<and> post_file ''u1'' ''b1'' (Some ''../../secret'') ''stolen'' st1
       = (FileSaved200, st1\<lparr>fs := store (fs st1) ''/srv/bots/secret'' (File ''stolen'')\<rparr>)"
proof -
  let ?b = "\<lparr>b_id = ''b1'', b_name = ''b1'', b_owner = ''u1'', b_path = ''/srv/bots/u1/b1'',
             b_status = Stopped, b_createdAt = 0, b_lastStarted = None,
             b_lastStopped = None\<rparr>"
  have bot: "findBot st1 ''b1'' ''u1'' = Some ?b"
    by (simp add: findBot_def st1_def)
  have root: "b_path ?b = CHR ''/'' # join_segs [''srv'', ''bots'', ''u1'', ''b1'']"
    by simp
  have rs: "\<forall>s\<in>set [''srv'', ''bots'', ''u1'', ''b1'']. clean_seg s"
    by (simp add: clean_seg_def)
  have name: "clean_seg ''secret''"
    by (simp add: clean_seg_def)
  have target: "''/srv/bots/secret'' = CHR ''/'' # join_segs
      (take (length [''srv'', ''bots'', ''u1'', ''b1''] - 2) [''srv'', ''bots'', ''u1'', ''b1'']
        @ [''secret''])"
    by simp
  have dir: "fs_stat (fs st1) (dirname ''/srv/bots/secret'') = Some Dir
      \<and> fs_stat (fs st1) ''/srv/bots/secret'' \<noteq> Some Dir"
    by (simp add: st1_def fs_stat_def dirname_def)
  have p: "parents 2 ''secret'' = ''../../secret''"
    by (simp add: parents_def numeral_2_eq_2)
  show ?thesis
    using C1_escape_written_outside_root [OF bot root rs _ _ name target, where content = "''stolen''"] dir p
    by simp
qed

text \<open>
  Claim C1 as stated fails: under the root \<open>/srv/bots/u1/b1\<close> the write of
  \<open>../../secret\<close> answers success and creates \<open>/srv/bots/secret\<close>, outside the root,
  and the read of the same relative path then returns what was written.
\<close>

theorem C1_escape_counterexample:
  "fst (post_file ''u1'' ''b1'' (Some ''../../secret'') ''stolen'' st1) = FileSaved200
   \<and> file_success (fst (post_file ''u1'' ''b1'' (Some ''../../secret'') ''stolen'' st1))
   \<and> fs_stat (fs (snd (post_file ''u1'' ''b1'' (Some ''../../secret'') ''stolen'' st1)))
        ''/srv/bots/secret'' = Some (File ''stolen'')
   \<and> fs_stat (fs st1) ''/srv/bots/secret'' = None
   \<and> \<not> within ''/srv/bots/u1/b1'' ''/srv/bots/secret''
   \<and> get_file ''u1'' ''b1'' (Some ''../../secret'')
        (snd (post_file ''u1'' ''b1'' (Some ''../../secret'') ''stolen'' st1))
      = FileContent200 ''stolen''"
  by (simp add: post_file_def get_file_def findBot_def st1_def path_join_def normalize_def
      writeFile_def readFile_def existsSync_def fs_stat_def dirname_def within_def)

subsection \<open>Normalising a code\<close>

lemma of_char_upperChar:
  "(of_char (upperChar c) :: nat) =
     (if 97 \<le> (of_char c :: nat) \<and> (of_char c :: nat) \<le> 122 then of_char c - 32
      else of_char c)"
proof -
  have "(of_char c :: nat) - 32 < 256"
    using nat_of_char_less_256 [of c] by arith
  then have "((of_char c :: nat) - 32) mod 256 = of_char c - 32"
    by simp
  then show ?thesis by (simp add: upperChar_def Let_def)
qed

lemma upperChar_idem: "upperChar (upperChar c) = upperChar c"
proof -
  have "\<not> (97 \<le> (of_char (upperChar c) :: nat) \<and> (of_char (upperChar c) :: nat) \<le> 122)"
    by (simp only: of_char_upperChar) (auto split: if_splits)
  then show ?thesis
    unfolding upperChar_def [of "upperChar c"] Let_def by (simp only: if_False)
qed

lemma isAsciiWhiteSpace_of_char: "isAsciiWhiteSpace d \<Longrightarrow> (of_char d :: nat) \<le> 32"
  by (auto simp: isAsciiWhiteSpace_def)

lemma isAsciiWhiteSpace_upperChar: "isAsciiWhiteSpace (upperChar c) = isAsciiWhiteSpace c"
proof (cases "97 \<le> (of_char c :: nat) \<and> (of_char c :: nat) \<le> 122")
  case False
  then have "upperChar c = c" by (auto simp: upperChar_def Let_def)
  then show ?thesis by simp
next
  case True
  then have "(of_char (upperChar c) :: nat) = of_char c - 32"
    by (simp add: of_char_upperChar)
  with True have u: "65 \<le> (of_char (upperChar c) :: nat)" by arith
  have "\<not> isAsciiWhiteSpace c"
    using True isAsciiWhiteSpace_of_char [of c] by auto
  moreover have "\<not> isAsciiWhiteSpace (upperChar c)"
    using u isAsciiWhiteSpace_of_char [of "upperChar c"] by auto
  ultimately show ?thesis by simp
qed

lemma upperChars_idem: "map upperChar (map upperChar s) = map upperChar s"
  by (simp add: upperChar_idem)

lemma trimAscii_upperChars: "trimAscii (map upperChar s) = map upperChar (trimAscii s)"
proof -
  have c: "isAsciiWhiteSpace \<circ> upperChar = isAsciiWhiteSpace"
    by (rule ext) (simp add: isAsciiWhiteSpace_upperChar)
  show ?thesis
    by (simp add: trimAscii_def dropWhile_map rev_map c)
qed

lemma dropWhile_rev_dropWhile:
  "dropWhile P (rev (dropWhile P (rev (dropWhile P xs)))) = rev (dropWhile P (rev (dropWhile P xs)))"
proof -
  let ?t = "dropWhile P xs"
  let ?u = "rev (dropWhile P (rev ?t))"
  have split: "?t = ?u @ rev (takeWhile P (rev ?t))"
  proof -
    have "rev (rev ?t) = rev (takeWhile P (rev ?t) @ dropWhile P (rev ?t))"
      by (simp only: takeWhile_dropWhile_id)
    then show ?thesis by (simp only: rev_rev_ident rev_append)
  qed
  show ?thesis
  proof (cases "?u = []")
    case True
    then show ?thesis by (simp only: True dropWhile.simps)
  next
    case False
    then have tne: "?t \<noteq> []" by (metis dropWhile.simps(1) rev.simps(1))
    have "hd ?t = hd ?u"
      using False by (subst split) (simp only: hd_append if_False)
    moreover have "\<not> P (hd ?t)"
      using tne by (rule hd_dropWhile)
    ultimately have "\<not> P (hd ?u)" by simp
    then show ?thesis by (simp only: dropWhile_eq_self_iff) simp
  qed
qed

lemma trimAscii_idem: "trimAscii (trimAscii s) = trimAscii s"
  unfolding trimAscii_def
  by (simp only: dropWhile_rev_dropWhile rev_rev_ident dropWhile_idem)

lemma isAscii_upperChars: "isAscii s \<Longrightarrow> isAscii (map upperChar s)"
  by (auto simp: isAscii_def list_all_iff of_char_upperChar)

lemma isAscii_trimAscii: "isAscii s \<Longrightarrow> isAscii (trimAscii s)"
  by (auto simp: isAscii_def list_all_iff trimAscii_def dest!: set_dropWhileD)

text \<open>On ASCII strings the built-ins of every runtime are the ASCII functions.\<close>

lemma trim_ascii: "isAscii s \<Longrightarrow> trim rt s = trimAscii s"
  by (simp add: trim_def)

lemma toUpperCase_ascii: "isAscii s \<Longrightarrow> toUpperCase rt s = map upperChar s"
  by (simp add: toUpperCase_def)

lemma toLowerCase_ascii: "isAscii s \<Longrightarrow> toLowerCase rt s = map lowerChar s"
  by (simp add: toLowerCase_def)

text \<open>The runtime that leaves other strings alone has the properties that
  normalising a code needs of a runtime.\<close>

lemma plain_trim_idem: "trim plain_runtime (trim plain_runtime s) = trim plain_runtime s"
  by (cases "isAscii s")
     (simp_all add: trim_def plain_runtime_def isAscii_trimAscii trimAscii_idem)

lemma plain_upper_idem:
  "toUpperCase plain_runtime (toUpperCase plain_runtime s) = toUpperCase plain_runtime s"
  by (cases "isAscii s")
     (simp_all add: toUpperCase_def plain_runtime_def isAscii_upperChars upperChar_idem)

lemma plain_trim_upper:
  "trim plain_runtime (toUpperCase plain_runtime s)
     = toUpperCase plain_runtime (trim plain_runtime s)"
  by (cases "isAscii s")
     (simp_all add: trim_def toUpperCase_def plain_runtime_def isAscii_upperChars
        isAscii_trimAscii trimAscii_upperChars)

lemma plain_upper_Nil: "toUpperCase plain_runtime s = [] \<longrightarrow> s = []"
  by (cases "isAscii s") (simp_all add: toUpperCase_def plain_runtime_def)

lemma post_login_clean:
  assumes t: "\<forall>s. trim rt (trim rt s) = trim rt s"
    and u: "\<forall>s. toUpperCase rt (toUpperCase rt s) = toUpperCase rt s"
    and tu: "\<forall>s. trim rt (toUpperCase rt s) = toUpperCase rt (trim rt s)"
    and n: "\<forall>s. toUpperCase rt s = [] \<longrightarrow> s = []"
    and s: "s = [] \<or> trim rt s \<noteq> []"
  shows "post_login rt now freshId (Some s) st
       = post_login rt now freshId (Some (trim rt (toUpperCase rt s))) st"
proof (cases "s = []")
  case True
  then show ?thesis by (simp add: trim_def toUpperCase_def isAscii_def trimAscii_def)
next
  case False
  with s have "trim rt s \<noteq> []" by simp
  then have "toUpperCase rt (trim rt s) \<noteq> []" using n by blast
  then have ne: "trim rt (toUpperCase rt s) \<noteq> []" using tu by simp
  have "toUpperCase rt (trim rt (trim rt (toUpperCase rt s)))
      = toUpperCase rt (toUpperCase rt (trim rt (trim rt s)))"
    using tu by simp
  also have "\<dots> = toUpperCase rt (trim rt s)"
    using t u by simp
  finally show ?thesis using False ne
    by (simp add: post_login_def)
qed

subsection \<open>Evaluated examples of the broker\<close>

lemma clean_padded: "toUpperCase rt (trim rt '' ab12cd '') = ''AB12CD''"
proof -
  have 1: "isAscii '' ab12cd ''" by code_simp
  have 2: "trimAscii '' ab12cd '' = ''ab12cd''" by code_simp
  have 3: "isAscii ''ab12cd''" by code_simp
  have 4: "map upperChar ''ab12cd'' = ''AB12CD''" by code_simp
  show ?thesis by (simp only: trim_ascii [OF 1] 2 toUpperCase_ascii [OF 3] 4)
qed

lemma clean_padded_claim_order: "trim rt (toUpperCase rt '' ab12cd '') = ''AB12CD''"
proof -
  have 1: "isAscii '' ab12cd ''" by code_simp
  have 2: "map upperChar '' ab12cd '' = '' AB12CD ''" by code_simp
  have 3: "isAscii '' AB12CD ''" by code_simp
  have 4: "trimAscii '' AB12CD '' = ''AB12CD''" by code_simp
  show ?thesis by (simp only: toUpperCase_ascii [OF 1] 2 trim_ascii [OF 3] 4)
qed

lemma clean_fixed: "toUpperCase rt (trim rt ''AB12CD'') = ''AB12CD''"
proof -
  have 1: "isAscii ''AB12CD''" by code_simp
  have 2: "trimAscii ''AB12CD'' = ''AB12CD''" by code_simp
  have 4: "map upperChar ''AB12CD'' = ''AB12CD''" by code_simp
  show ?thesis by (simp only: trim_ascii [OF 1] 2 toUpperCase_ascii [OF 1] 4)
qed

lemma clean_lower: "toUpperCase rt (trim rt ''ab12cd'') = ''AB12CD''"
proof -
  have 1: "isAscii ''ab12cd''" by code_simp
  have 2: "trimAscii ''ab12cd'' = ''ab12cd''" by code_simp
  have 4: "map upperChar ''ab12cd'' = ''AB12CD''" by code_simp
  show ?thesis by (simp only: trim_ascii [OF 1] 2 toUpperCase_ascii [OF 1] 4)
qed

lemma clean_generated: "toUpperCase rt (trim rt ''ABCDEF'') = ''ABCDEF''"
proof -
  have 1: "isAscii ''ABCDEF''" by code_simp
  have 2: "trimAscii ''ABCDEF'' = ''ABCDEF''" by code_simp
  have 4: "map upperChar ''ABCDEF'' = ''ABCDEF''" by code_simp
  show ?thesis by (simp only: trim_ascii [OF 1] 2 toUpperCase_ascii [OF 1] 4)
qed

lemma clean_repeated: "toUpperCase rt (trim rt ''AAAAAA'') = ''AAAAAA''"
proof -
  have 1: "isAscii ''AAAAAA''" by code_simp
  have 2: "trimAscii ''AAAAAA'' = ''AAAAAA''" by code_simp
  have 4: "map upperChar ''AAAAAA'' = ''AAAAAA''" by code_simp
  show ?thesis by (simp only: trim_ascii [OF 1] 2 toUpperCase_ascii [OF 1] 4)
qed

lemma clean_blank:
  "trim rt '' '' = []" "toUpperCase rt [] = []" "trim rt (toUpperCase rt '' '') = []"
proof -
  have 1: "isAscii '' ''" by code_simp
  have 2: "trimAscii '' '' = []" by code_simp
  have 3: "map upperChar '' '' = '' ''" by code_simp
  show "trim rt '' '' = []" by (simp only: trim_ascii [OF 1] 2)
  show "toUpperCase rt [] = []" by (simp add: toUpperCase_def isAscii_def)
  show "trim rt (toUpperCase rt '' '') = []"
    by (simp only: toUpperCase_ascii [OF 1] 3 trim_ascii [OF 1] 2)
qed

lemma generateCode_example: "generateCode (\<lambda>i. i) = ''ABCDEF''"
  by code_simp


subsection \<open>C8: redemption normalises its input\<close>

text \<open>
  Claim C8, as amended. Take a runtime whose \<open>trim\<close> and \<open>toUpperCase\<close> are idempotent
  and commute and whose \<open>toUpperCase\<close> gives the empty string for the empty string
  only, as those of JavaScript do. For every input string that is empty or not made
  of white space only, redeeming the string and redeeming its trimmed upper-case
  form give the same response and the same state. In particular \<open>" ab12cd "\<close> is
  redeemed exactly as \<open>"AB12CD"\<close>, and successfully whenever an unused code \<open>AB12CD\<close>
  is stored.
\<close>

theorem C8_redeem_normalised_input:
  assumes "\<forall>s. trim rt (trim rt s) = trim rt s"
    and "\<forall>s. toUpperCase rt (toUpperCase rt s) = toUpperCase rt s"
    and "\<forall>s. trim rt (toUpperCase rt s) = toUpperCase rt (trim rt s)"
    and "\<forall>s. toUpperCase rt s = [] \<longrightarrow> s = []"
  shows "(s = [] \<or> trim rt s \<noteq> [] \<longrightarrow>
      post_login rt now freshId (Some s) st
        = post_login rt now freshId (Some (trim rt (toUpperCase rt s))) st)
   \<and> post_login rt now freshId (Some '' ab12cd '') st
        = post_login rt now freshId (Some ''AB12CD'') st
   \<and> (find (\<lambda>a. code a = ''AB12CD'' \<and> used a = False) (authSessions st) \<noteq> None \<longrightarrow>
        (\<exists>sess st'. post_login rt now freshId (Some '' ab12cd '') st
                       = (LoginRedirectDashboard sess, st')))"
proof -
  have a: "s = [] \<or> trim rt s \<noteq> [] \<longrightarrow>
      post_login rt now freshId (Some s) st
        = post_login rt now freshId (Some (trim rt (toUpperCase rt s))) st"
    using post_login_clean [OF assms] by blast
  have b: "post_login rt now freshId (Some '' ab12cd '') st
        = post_login rt now freshId (Some ''AB12CD'') st"
    by (simp add: post_login_def clean_padded clean_fixed)
  have c: "find (\<lambda>a. code a = ''AB12CD'' \<and> used a = False) (authSessions st) \<noteq> None \<longrightarrow>
        (\<exists>sess st'. post_login rt now freshId (Some '' ab12cd '') st
                       = (LoginRedirectDashboard sess, st'))"
    by (auto simp add: post_login_def clean_padded Let_def)
  show ?thesis using a b c by blast
qed


theorem C8_redeem_witness:
  "post_login plain_runtime 1000 ''u9'' (Some '' ab12cd '') st_code
     = post_login plain_runtime 1000 ''u9'' (Some ''AB12CD'') st_code
   \<and> fst (post_login plain_runtime 1000 ''u9'' (Some '' ab12cd '') st_code)
     = LoginRedirectDashboard \<lparr>s_userId = ''u9'', s_discordId = ''d1'', s_username = ''ann'',
         s_tier = ''free''\<rparr>"
proof -
  have h1: "\<forall>s. trim plain_runtime (trim plain_runtime s) = trim plain_runtime s"
    by (simp add: plain_trim_idem)
  have h2: "\<forall>s. toUpperCase plain_runtime (toUpperCase plain_runtime s)
      = toUpperCase plain_runtime s"
    by (simp add: plain_upper_idem)
  have h3: "\<forall>s. trim plain_runtime (toUpperCase plain_runtime s)
      = toUpperCase plain_runtime (trim plain_runtime s)"
    by (simp add: plain_trim_upper)
  have h4: "\<forall>s. toUpperCase plain_runtime s = [] \<longrightarrow> s = []"
    using plain_upper_Nil by blast
  have t: "trim plain_runtime '' ab12cd '' \<noteq> []"
  proof -
    have 1: "isAscii '' ab12cd ''" by code_simp
    have 2: "trimAscii '' ab12cd '' = ''ab12cd''" by code_simp
    show ?thesis by (simp only: trim_ascii [OF 1] 2) simp
  qed
  have r: "fst (post_login plain_runtime 1000 ''u9'' (Some ''AB12CD'') st_code)
     = LoginRedirectDashboard \<lparr>s_userId = ''u9'', s_discordId = ''d1'', s_username = ''ann'',
         s_tier = ''free''\<rparr>"
    by (simp add: post_login_def clean_fixed st_code_def st1_def)
  show ?thesis
    using C8_redeem_normalised_input [OF h1 h2 h3 h4, of "'' ab12cd ''" 1000 "''u9''" st_code] t r
    by (simp add: clean_padded_claim_order)
qed


text \<open>
  Claim C8 as stated, for every input string, fails on a blank input, in every
  runtime: the string of one space passes the test for a missing code and is
  answered as an incorrect code, while its normalised form, the empty string, is
  answered as a missing code.
\<close>

theorem C8_blank_input_counterexample:
  "\<forall>rt. post_login rt 0 ''u9'' (Some '' '') st1
     \<noteq> post_login rt 0 ''u9'' (Some (trim rt (toUpperCase rt '' ''))) st1"
  by (simp add: post_login_def clean_blank st1_def)


subsection \<open>C2: a code older than five minutes\<close>

text \<open>
  Claim C2 at a failing input. The code \<open>ABCDEF\<close> is issued at time 0 and redeemed
  300001 ms later, more than five minutes after: the login handler compares no time
  and redirects to the dashboard with a session for the user of the code.
\<close>

theorem C2_expired_code_redeemed:
  "\<forall>rt. fst (post_login rt (5 * 60 * 1000 + 1) ''u9'' (Some ''ABCDEF'')
          (snd (handleVerificationCommand (\<lambda>i. i) 0 user1 st1)))
     = LoginRedirectDashboard \<lparr>s_userId = ''u9'', s_discordId = ''d1'', s_username = ''ann'',
         s_tier = ''free''\<rparr>
   \<and> map issuedAt (unused_codes (snd (handleVerificationCommand (\<lambda>i. i) 0 user1 st1)) ''d1'')
     = [0]"
  by (simp add: post_login_def handleVerificationCommand_def generateCode_example user1_def
      st1_def unused_codes_def clean_generated Let_def)

subsection \<open>Issuing a code\<close>

lemma issue_sessions:
  "authSessions (snd (handleVerificationCommand rnd now u st))
     = map (\<lambda>a. if discordId a = iu_id u \<and> used a = False then a\<lparr>used := True\<rparr> else a)
         (authSessions st)
       @ [\<lparr>code = generateCode rnd, discordId = iu_id u, username = iu_username u,
           avatar = iu_avatarURL u, used = False, usedAt = None, issuedAt = now\<rparr>]"
  by (simp add: handleVerificationCommand_def Let_def)

lemma issue_code: "fst (handleVerificationCommand rnd now u st) = generateCode rnd"
  by (simp add: handleVerificationCommand_def Let_def)

lemma filter_marked_own:
  "filter (\<lambda>a. discordId a = d \<and> \<not> used a)
     (map (\<lambda>a. if discordId a = d \<and> \<not> used a then a\<lparr>used := True\<rparr> else a) xs) = []"
  by (induction xs) auto

lemma filter_marked_other:
  "d' \<noteq> d \<Longrightarrow>
   filter (\<lambda>a. discordId a = d' \<and> \<not> used a)
     (map (\<lambda>a. if discordId a = d \<and> \<not> used a then a\<lparr>used := True\<rparr> else a) xs)
   = filter (\<lambda>a. discordId a = d' \<and> \<not> used a) xs"
  by (induction xs) auto

lemma issue_unused_own:
  "unused_codes (snd (handleVerificationCommand rnd now u st)) (iu_id u)
     = [\<lparr>code = generateCode rnd, discordId = iu_id u, username = iu_username u,
         avatar = iu_avatarURL u, used = False, usedAt = None, issuedAt = now\<rparr>]"
  by (simp add: unused_codes_def issue_sessions filter_marked_own)

lemma issue_unused_other:
  "d \<noteq> iu_id u \<Longrightarrow>
   unused_codes (snd (handleVerificationCommand rnd now u st)) d = unused_codes st d"
  by (simp add: unused_codes_def issue_sessions filter_marked_other)

lemma issue_marks:
  assumes "i < length (authSessions st)" and "discordId (authSessions st ! i) = iu_id u"
  shows "used (authSessions (snd (handleVerificationCommand rnd now u st)) ! i)"
  using assms by (simp add: issue_sessions nth_append)

lemma issue_invariant:
  assumes "\<forall>d. length (unused_codes st d) \<le> 1"
  shows "length (unused_codes (snd (handleVerificationCommand rnd now u st)) d) \<le> 1"
proof (cases "d = iu_id u")
  case True
  then show ?thesis by (simp add: issue_unused_own)
next
  case False
  then show ?thesis using assms by (simp add: issue_unused_other)
qed

lemma earlier_code_not_found:
  assumes a: "a \<in> set (authSessions st)" and own: "discordId a = iu_id u"
    and other: "code a \<noteq> generateCode rnd"
    and uniq: "\<forall>b\<in>set (authSessions st). code b = code a \<and> used b = False
                 \<longrightarrow> discordId b = iu_id u"
    and s: "s \<noteq> []" "toUpperCase rt (trim rt s) = code a"
  shows "post_login rt now' freshId (Some s) (snd (handleVerificationCommand rnd now u st))
       = (LoginInvalidCode, snd (handleVerificationCommand rnd now u st))"
proof -
  let ?st' = "snd (handleVerificationCommand rnd now u st)"
  have "find (\<lambda>x. code x = code a \<and> used x = False) (authSessions ?st') = None"
    using uniq other by (auto simp: find_None_iff issue_sessions)
  then show ?thesis using s by (simp add: post_login_def)
qed


subsection \<open>C3: a new code invalidates the earlier codes of its identity\<close>

text \<open>
  Claim C3, as amended. Issuing a code for an external identity marks every session
  stored for that identity as used, so that afterwards the identity holds exactly one
  unused code, the new one; identities that held at most one unused code before still
  do. Redeeming an earlier code of the identity afterwards is answered as an incorrect
  code, provided that the new code is a different string and no unused code of
  another identity is the same string.
\<close>

theorem C3_issue_invalidates_earlier_codes:
  "(\<forall>i < length (authSessions st). discordId (authSessions st ! i) = iu_id u \<longrightarrow>
       used (authSessions (snd (handleVerificationCommand rnd now u st)) ! i))
   \<and> map code (unused_codes (snd (handleVerificationCommand rnd now u st)) (iu_id u))
       = [fst (handleVerificationCommand rnd now u st)]
   \<and> ((\<forall>d. length (unused_codes st d) \<le> 1) \<longrightarrow>
       (\<forall>d. length (unused_codes (snd (handleVerificationCommand rnd now u st)) d) \<le> 1))
   \<and> (\<forall>a s. a \<in> set (authSessions st) \<and> discordId a = iu_id u
         \<and> code a \<noteq> fst (handleVerificationCommand rnd now u st)
         \<and> (\<forall>b\<in>set (authSessions st). code b = code a \<and> used b = False
               \<longrightarrow> discordId b = iu_id u)
         \<and> s \<noteq> [] \<and> toUpperCase rt (trim rt s) = code a \<longrightarrow>
       post_login rt now' freshId (Some s) (snd (handleVerificationCommand rnd now u st))
         = (LoginInvalidCode, snd (handleVerificationCommand rnd now u st)))"
proof -
  have 1: "\<forall>i < length (authSessions st). discordId (authSessions st ! i) = iu_id u \<longrightarrow>
       used (authSessions (snd (handleVerificationCommand rnd now u st)) ! i)"
    using issue_marks by blast
  have 2: "map code (unused_codes (snd (handleVerificationCommand rnd now u st)) (iu_id u))
       = [fst (handleVerificationCommand rnd now u st)]"
    by (simp add: issue_unused_own issue_code)
  have 3: "(\<forall>d. length (unused_codes st d) \<le> 1) \<longrightarrow>
       (\<forall>d. length (unused_codes (snd (handleVerificationCommand rnd now u st)) d) \<le> 1)"
    using issue_invariant by blast
  have 4: "\<forall>a s. a \<in> set (authSessions st) \<and> discordId a = iu_id u
         \<and> code a \<noteq> fst (handleVerificationCommand rnd now u st)
         \<and> (\<forall>b\<in>set (authSessions st). code b = code a \<and> used b = False
               \<longrightarrow> discordId b = iu_id u)
         \<and> s \<noteq> [] \<and> toUpperCase rt (trim rt s) = code a \<longrightarrow>
       post_login rt now' freshId (Some s) (snd (handleVerificationCommand rnd now u st))
         = (LoginInvalidCode, snd (handleVerificationCommand rnd now u st))"
    by (simp only: issue_code) (blast intro: earlier_code_not_found)
  show ?thesis using 1 2 3 4 by blast
qed


theorem C3_issue_witness:
  "used (authSessions (snd (handleVerificationCommand (\<lambda>i. i) 1000 user1 st_code)) ! 0)
   \<and> map code (unused_codes (snd (handleVerificationCommand (\<lambda>i. i) 1000 user1 st_code)) ''d1'')
       = [''ABCDEF'']
   \<and> length (unused_codes (snd (handleVerificationCommand (\<lambda>i. i) 1000 user1 st_code)) ''d1'')
       \<le> 1
   \<and> post_login plain_runtime 2000 ''u9'' (Some ''ab12cd'')
        (snd (handleVerificationCommand (\<lambda>i. i) 1000 user1 st_code))
       = (LoginInvalidCode, snd (handleVerificationCommand (\<lambda>i. i) 1000 user1 st_code))"
proof -
  let ?a = "\<lparr>code = ''AB12CD'', discordId = ''d1'', username = ''ann'', avatar = ''a.png'',
             used = False, usedAt = None, issuedAt = 0\<rparr>"
  note t = C3_issue_invalidates_earlier_codes
    [where st = st_code and u = user1 and rnd = "\<lambda>i. i" and now = 1000 and now' = 2000
       and freshId = "''u9''" and rt = plain_runtime]
  have c: "fst (handleVerificationCommand (\<lambda>i. i) 1000 user1 st_code) = ''ABCDEF''"
    by (simp add: issue_code generateCode_example)
  have n: "toUpperCase plain_runtime (trim plain_runtime ''ab12cd'') = ''AB12CD''"
    by (rule clean_lower)
  have inv: "\<forall>d. length (unused_codes st_code d) \<le> 1"
    by (simp add: unused_codes_def st_code_def)
  have ne: "code ?a \<noteq> fst (handleVerificationCommand (\<lambda>i. i) 1000 user1 st_code)"
    by (simp only: c) simp
  have rest: "?a \<in> set (authSessions st_code) \<and> discordId ?a = iu_id user1
      \<and> (\<forall>b\<in>set (authSessions st_code). code b = code ?a \<and> used b = False
            \<longrightarrow> discordId b = iu_id user1)
      \<and> ''ab12cd'' \<noteq> [] \<and> toUpperCase plain_runtime (trim plain_runtime ''ab12cd'') = code ?a"
    by (simp add: n st_code_def user1_def)
  from ne rest have pre: "?a \<in> set (authSessions st_code) \<and> discordId ?a = iu_id user1
      \<and> code ?a \<noteq> fst (handleVerificationCommand (\<lambda>i. i) 1000 user1 st_code)
      \<and> (\<forall>b\<in>set (authSessions st_code). code b = code ?a \<and> used b = False
            \<longrightarrow> discordId b = iu_id user1)
      \<and> ''ab12cd'' \<noteq> [] \<and> toUpperCase plain_runtime (trim plain_runtime ''ab12cd'') = code ?a"
    by blast
  have i0: "0 < length (authSessions st_code)
      \<and> discordId (authSessions st_code ! 0) = iu_id user1"
    by (simp add: st_code_def user1_def)
  from t i0 have 1: "used (authSessions (snd (handleVerificationCommand (\<lambda>i. i) 1000 user1 st_code)) ! 0)"
    by blast
  from t c have 2: "map code (unused_codes (snd (handleVerificationCommand (\<lambda>i. i) 1000 user1 st_code)) ''d1'')
       = [''ABCDEF'']"
    by (simp add: user1_def)
  from t inv have 3: "length (unused_codes (snd (handleVerificationCommand (\<lambda>i. i) 1000 user1 st_code)) ''d1'') \<le> 1"
    by blast
  from t pre have 4: "post_login plain_runtime 2000 ''u9'' (Some ''ab12cd'')
        (snd (handleVerificationCommand (\<lambda>i. i) 1000 user1 st_code))
       = (LoginInvalidCode, snd (handleVerificationCommand (\<lambda>i. i) 1000 user1 st_code))"
    by blast
  show ?thesis using 1 2 3 4 by blast
qed

text \<open>
  Claim C3 as stated fails where the random draws repeat: two codes issued in turn to
  one identity from the same draws are the same string, and redeeming the first after
  the second was issued logs the user in.
\<close>

theorem C3_repeated_code_counterexample:
  "\<forall>rt. fst (post_login rt 2000 ''u9''
          (Some (fst (handleVerificationCommand (\<lambda>i. 0) 0 user1 st1)))
          (snd (handleVerificationCommand (\<lambda>i. 0) 1000 user1
             (snd (handleVerificationCommand (\<lambda>i. 0) 0 user1 st1)))))
     = LoginRedirectDashboard \<lparr>s_userId = ''u9'', s_discordId = ''d1'', s_username = ''ann'',
         s_tier = ''free''\<rparr>
   \<and> fst (post_login rt 2000 ''u9''
          (Some (fst (handleVerificationCommand (\<lambda>i. 0) 0 user1 st1)))
          (snd (handleVerificationCommand (\<lambda>i. 0) 1000 user1
             (snd (handleVerificationCommand (\<lambda>i. 0) 0 user1 st1)))))
     \<noteq> LoginInvalidCode"
proof -
  have g: "generateCode (\<lambda>i. 0) = ''AAAAAA''" by code_simp
  show ?thesis
    by (simp add: post_login_def handleVerificationCommand_def g clean_repeated user1_def
        st1_def Let_def)
qed

subsection \<open>The start handler\<close>

lemma findBot_SomeD:
  "findBot st botId userId = Some b \<Longrightarrow> b_id b = botId \<and> b_owner b = userId"
  by (auto simp: findBot_def find_Some_iff)

lemma find_map_saved:
  assumes "find (\<lambda>b. b_id b = botId \<and> b_owner b = userId) bs = Some b"
    and "b_id b' = botId" and "b_owner b' = userId"
  shows "find (\<lambda>b. b_id b = botId \<and> b_owner b = userId)
           (map (\<lambda>x. if b_id x = b_id b' then b' else x) bs) = Some b'"
  using assms by (induction bs) (auto split: if_splits)

lemma findBot_saveBot:
  assumes "findBot st botId userId = Some b" and "b_id b' = b_id b" and "b_owner b' = b_owner b"
    and "bots st' = bots st"
  shows "findBot (saveBot b' st') botId userId = Some b'"
proof -
  have ids: "b_id b' = botId" "b_owner b' = userId"
    using assms findBot_SomeD [OF assms(1)] by auto
  show ?thesis
    using find_map_saved [OF assms(1) [unfolded findBot_def] ids] assms(4)
    by (simp add: findBot_def saveBot_def)
qed

lemma post_start_running:
  assumes "findBot st botId userId = Some b" and "botProcesses st (b_id b) \<noteq> None"
  shows "post_start sp now userId botId st = (StartAlreadyRunning, st)"
  using assms by (simp add: post_start_def start_check_def start_resume_def)

lemma post_start_StartedD:
  assumes "fst (post_start sp now userId botId st) = StartStarted"
  shows "\<exists>b mainFile pid. findBot st botId userId = Some b \<and> sp = Spawned pid
           \<and> botProcesses st (b_id b) = None
           \<and> findMainFile (fs st) (b_path b) = Some mainFile
           \<and> snd (post_start sp now userId botId st)
             = saveBot (b\<lparr>b_status := Running, b_lastStarted := Some now\<rparr>)
                 (st\<lparr>botProcesses := (botProcesses st)(b_id b \<mapsto> Child pid),
                     processes := processes st @ [(pid, b_id b, mainFile)]\<rparr>)"
  using assms
  by (auto simp: post_start_def start_check_def start_resume_def
      split: option.splits if_splits spawn_result.splits)

lemma post_start_unchanged:
  assumes "fst (post_start sp now userId botId st) \<noteq> StartStarted"
  shows "snd (post_start sp now userId botId st) = st"
  using assms
  by (auto simp: post_start_def start_check_def start_resume_def
      split: option.splits if_splits spawn_result.splits)

lemma post_start_twice:
  assumes "fst (post_start sp now userId botId st) = StartStarted"
  shows "post_start sp' now' userId botId (snd (post_start sp now userId botId st))
       = (StartAlreadyRunning, snd (post_start sp now userId botId st))"
proof -
  from post_start_StartedD [OF assms] obtain b mainFile pid where
    b: "findBot st botId userId = Some b" and
    s: "snd (post_start sp now userId botId st)
          = saveBot (b\<lparr>b_status := Running, b_lastStarted := Some now\<rparr>)
              (st\<lparr>botProcesses := (botProcesses st)(b_id b \<mapsto> Child pid),
                  processes := processes st @ [(pid, b_id b, mainFile)]\<rparr>)"
    by blast
  let ?b' = "b\<lparr>b_status := Running, b_lastStarted := Some now\<rparr>"
  let ?st' = "snd (post_start sp now userId botId st)"
  have f: "findBot ?st' botId userId = Some ?b'"
    unfolding s by (rule findBot_saveBot [OF b]) simp_all
  have h: "botProcesses ?st' (b_id ?b') \<noteq> None"
    unfolding s by (simp add: saveBot_def)
  show ?thesis by (rule post_start_running [OF f h])
qed

lemma findMainFile_st1: "findMainFile (fs st1) ''/srv/bots/u1/b1'' = Some ''/srv/bots/u1/b1/index.js''"
  by (simp add: findMainFile_def possibleFiles_def existsSync_def fs_stat_def st1_def
      path_join_def normalize_def)

lemma findBot_st1:
  "findBot st1 ''b1'' ''u1''
     = Some \<lparr>b_id = ''b1'', b_name = ''b1'', b_owner = ''u1'', b_path = ''/srv/bots/u1/b1'',
             b_status = Stopped, b_createdAt = 0, b_lastStarted = None,
             b_lastStopped = None\<rparr>"
  by (simp add: findBot_def st1_def)

lemma st1_fields:
  "bots st1 = [\<lparr>b_id = ''b1'', b_name = ''b1'', b_owner = ''u1'',
                 b_path = ''/srv/bots/u1/b1'', b_status = Stopped, b_createdAt = 0,
                 b_lastStarted = None, b_lastStopped = None\<rparr>]"
  "botProcesses st1 = Map.empty" "processes st1 = []" "signalled st1 = []"
  by (simp_all add: st1_def)

lemma post_start_st1:
  "post_start (Spawned 7) 5 ''u1'' ''b1'' st1
     = (StartStarted,
        st1\<lparr>bots := [\<lparr>b_id = ''b1'', b_name = ''b1'', b_owner = ''u1'',
                        b_path = ''/srv/bots/u1/b1'', b_status = Running, b_createdAt = 0,
                        b_lastStarted = Some 5, b_lastStopped = None\<rparr>],
            botProcesses := [''b1'' \<mapsto> Child 7],
            processes := [(7, ''b1'', ''/srv/bots/u1/b1/index.js'')]\<rparr>)"
  by (simp add: post_start_def start_check_def start_resume_def findBot_st1 findMainFile_st1
      saveBot_def st1_fields)

text \<open>The workload whose entry file is found by reading its directory.\<close>

lemma findMainFile_st2:
  "findMainFile (fs st2) ''/srv/bots/u1/b1'' = Some ''/srv/bots/u1/b1/run.js''"
  by (simp add: findMainFile_def possibleFiles_def existsSync_def fs_stat_def st2_def
      st1_def path_join_def normalize_def readdir_def children_def dirname_def basename_def
      strip_slash_def codeUnitOrderKey_def endsWith_def suffix_def)

lemma conventional_st2:
  "find (\<lambda>file. existsSync (fs st2) (path_join [''/srv/bots/u1/b1'', file])) possibleFiles = None"
  by (simp add: possibleFiles_def existsSync_def fs_stat_def st2_def
      st1_def path_join_def normalize_def)

lemma findBot_st2:
  "findBot st2 ''b1'' ''u1''
     = Some \<lparr>b_id = ''b1'', b_name = ''b1'', b_owner = ''u1'', b_path = ''/srv/bots/u1/b1'',
             b_status = Stopped, b_createdAt = 0, b_lastStarted = None,
             b_lastStopped = None\<rparr>"
  by (simp add: findBot_def st2_def st1_def)

lemma st2_fields:
  "bots st2 = [\<lparr>b_id = ''b1'', b_name = ''b1'', b_owner = ''u1'',
                 b_path = ''/srv/bots/u1/b1'', b_status = Stopped, b_createdAt = 0,
                 b_lastStarted = None, b_lastStopped = None\<rparr>]"
  "botProcesses st2 = Map.empty" "processes st2 = []" "signalled st2 = []"
  by (simp_all add: st2_def st1_def)


subsection \<open>C4: starting a running workload\<close>

text \<open>
  Claim C4 at a failing input. The start handler looks the workload up in the handle
  table, then waits for the entry file to be resolved, and only after that spawns and
  records the handle. The workload here has no file of a conventional name, so the
  handler waits for its directory to be read. Two start requests for the workload,
  the second arriving while the first waits, both find the table empty: both spawn a
  process and both answer that the workload was started, the table keeps the handle
  of the second process only, and the workload has two live processes. When the
  second request arrives after the first has finished, it is answered as already
  running and one process is live.
\<close>

theorem C4_overlapping_starts_spawn_twice:
  "find (\<lambda>file. existsSync (fs st2) (path_join [''/srv/bots/u1/b1'', file])) possibleFiles
     = None
   \<and> answers (start_turns [Arrives 1 ''u1'' ''b1'', Arrives 2 ''u1'' ''b1'',
                         Resumes 1 (Spawned 7) 5, Resumes 2 (Spawned 8) 6] run2)
     = [(1, StartStarted), (2, StartStarted)]
   \<and> processes_of (host (start_turns [Arrives 1 ''u1'' ''b1'', Arrives 2 ''u1'' ''b1'',
                         Resumes 1 (Spawned 7) 5, Resumes 2 (Spawned 8) 6] run2)) ''b1''
     = [(7, ''b1'', ''/srv/bots/u1/b1/run.js''), (8, ''b1'', ''/srv/bots/u1/b1/run.js'')]
   \<and> botProcesses (host (start_turns [Arrives 1 ''u1'' ''b1'', Arrives 2 ''u1'' ''b1'',
                         Resumes 1 (Spawned 7) 5, Resumes 2 (Spawned 8) 6] run2)) ''b1''
     = Some (Child 8)
   \<and> answers (start_turns [Arrives 1 ''u1'' ''b1'', Resumes 1 (Spawned 7) 5,
                           Arrives 2 ''u1'' ''b1'', Resumes 2 (Spawned 8) 6] run2)
     = [(1, StartStarted), (2, StartAlreadyRunning)]
   \<and> processes_of (host (start_turns [Arrives 1 ''u1'' ''b1'', Resumes 1 (Spawned 7) 5,
                           Arrives 2 ''u1'' ''b1'', Resumes 2 (Spawned 8) 6] run2)) ''b1''
     = [(7, ''b1'', ''/srv/bots/u1/b1/run.js'')]"
proof -
  let ?b = "\<lparr>b_id = ''b1'', b_name = ''b1'', b_owner = ''u1'', b_path = ''/srv/bots/u1/b1'',
             b_status = Stopped, b_createdAt = 0, b_lastStarted = None,
             b_lastStopped = None\<rparr>"
  let ?m = "Some ''/srv/bots/u1/b1/run.js''"
  have check: "start_check ''u1'' ''b1'' st2 = Awaiting ?b ?m"
    by (simp add: start_check_def findBot_st2 findMainFile_st2 st2_fields)
  let ?s1 = "st2\<lparr>bots := [\<lparr>b_id = ''b1'', b_name = ''b1'', b_owner = ''u1'',
                             b_path = ''/srv/bots/u1/b1'', b_status = Running,
                             b_createdAt = 0, b_lastStarted = Some 5,
                             b_lastStopped = None\<rparr>],
                 botProcesses := [''b1'' \<mapsto> Child 7],
                 processes := [(7, ''b1'', ''/srv/bots/u1/b1/run.js'')]\<rparr>"
  have first: "start_resume (Spawned 7) 5 ?b ?m st2 = (StartStarted, ?s1)"
    by (simp add: start_resume_def saveBot_def st2_fields)
  have twice: "start_check ''u1'' ''b1'' ?s1 = Answered StartAlreadyRunning"
    by (simp add: start_check_def findBot_def)
  have second: "start_resume (Spawned 8) 6 ?b ?m ?s1
      = (StartStarted,
         st2\<lparr>bots := [\<lparr>b_id = ''b1'', b_name = ''b1'', b_owner = ''u1'',
                         b_path = ''/srv/bots/u1/b1'', b_status = Running,
                         b_createdAt = 0, b_lastStarted = Some 6,
                         b_lastStopped = None\<rparr>],
             botProcesses := [''b1'' \<mapsto> Child 8],
             processes := [(7, ''b1'', ''/srv/bots/u1/b1/run.js''),
                           (8, ''b1'', ''/srv/bots/u1/b1/run.js'')]\<rparr>)"
    by (simp add: start_resume_def saveBot_def)
  show ?thesis
    by (simp add: conventional_st2 run2_def check first twice second processes_of_def)
qed


subsection \<open>C9: a spawn that fails\<close>

text \<open>
  Claim C9 at a failing input. The operating system cannot start the process and
  \<open>spawn\<close> reports it in the \<open>error\<close> event of the handle it returns: the start handler
  sends the caller no failure, the host exits. Only a \<open>spawn\<close> that throws reaches the
  handler's \<open>catch\<close> and is answered as a failure. Neither path calls \<open>spawn\<close> again.
\<close>

theorem C9_spawn_failure_not_surfaced:
  "post_start SpawnErrorEvent 5 ''u1'' ''b1'' st1 = (StartHostExit, st1)
   \<and> \<not> start_success (fst (post_start SpawnErrorEvent 5 ''u1'' ''b1'' st1))
   \<and> post_start SpawnThrows 5 ''u1'' ''b1'' st1 = (StartError, st1)"
  by (simp add: post_start_def start_check_def start_resume_def findBot_st1 findMainFile_st1
      st1_fields)


subsection \<open>C10: stopping a workload that has no handle\<close>

text \<open>
  Claim C10. When the caller's workload has no handle in the table, the stop handler
  answers success, and the workload's record is saved with the status \<open>stopped\<close> and
  the time of the call as its last-stopped time; no handle is signalled, and the
  handle table and the live processes are as before.
\<close>

theorem C10_stop_without_handle:
  assumes "findBot st botId userId = Some b" and "botProcesses st (b_id b) = None"
  shows "fst (post_stop now userId botId st) = StopStopped
    \<and> findBot (snd (post_stop now userId botId st)) botId userId
        = Some (b\<lparr>b_status := Stopped, b_lastStopped := Some now\<rparr>)
    \<and> signalled (snd (post_stop now userId botId st)) = signalled st
    \<and> processes (snd (post_stop now userId botId st)) = processes st
    \<and> botProcesses (snd (post_stop now userId botId st)) = botProcesses st"
proof -
  have s: "post_stop now userId botId st
      = (StopStopped, saveBot (b\<lparr>b_status := Stopped, b_lastStopped := Some now\<rparr>) st)"
    using assms by (simp add: post_stop_def)
  have f: "findBot (saveBot (b\<lparr>b_status := Stopped, b_lastStopped := Some now\<rparr>) st)
             botId userId = Some (b\<lparr>b_status := Stopped, b_lastStopped := Some now\<rparr>)"
    by (rule findBot_saveBot [OF assms(1)]) simp_all
  show ?thesis using f by (simp add: s) (simp add: saveBot_def)
qed


theorem C10_stop_witness:
  "fst (post_stop 9 ''u1'' ''b1'' st1) = StopStopped
   \<and> findBot (snd (post_stop 9 ''u1'' ''b1'' st1)) ''b1'' ''u1''
       = Some \<lparr>b_id = ''b1'', b_name = ''b1'', b_owner = ''u1'', b_path = ''/srv/bots/u1/b1'',
               b_status = Stopped, b_createdAt = 0, b_lastStarted = None,
               b_lastStopped = Some 9\<rparr>
   \<and> signalled (snd (post_stop 9 ''u1'' ''b1'' st1)) = []"
proof -
  have h: "botProcesses st1
      (b_id \<lparr>b_id = ''b1'', b_name = ''b1'', b_owner = ''u1'', b_path = ''/srv/bots/u1/b1'',
             b_status = Stopped, b_createdAt = 0, b_lastStarted = None,
             b_lastStopped = None\<rparr>) = None"
    by (simp add: st1_fields)
  show ?thesis
    using C10_stop_without_handle [OF findBot_st1 h, of 9] by (simp add: st1_fields)
qed

subsection \<open>Resolving the entry file\<close>














subsection \<open>C5: the entry file of a workload\<close>




subsection \<open>Sorting the entries of a listing\<close>

lemma set_insert_sorted: "set (insert_sorted cmp x ys) = insert x (set ys)"
  by (induction ys) auto

lemma mset_insert_sorted: "mset (insert_sorted cmp x ys) = add_mset x (mset ys)"
  by (induction ys) auto

lemma mset_array_sort: "mset (array_sort cmp xs) = mset xs"
  by (induction xs) (simp_all add: array_sort_def mset_insert_sorted)

lemma sorted_insert_sorted:
  assumes total: "\<And>a b. cmp a b \<le> 0 \<or> cmp b a \<le> 0"
    and trans: "\<And>a b c. cmp a b \<le> 0 \<Longrightarrow> cmp b c \<le> 0 \<Longrightarrow> cmp a c \<le> 0"
    and "sorted_wrt (\<lambda>a b. cmp a b \<le> 0) ys"
  shows "sorted_wrt (\<lambda>a b. cmp a b \<le> 0) (insert_sorted cmp x ys)"
  using assms(3)
proof (induction ys)
  case Nil
  then show ?case by simp
next
  case (Cons y ys)
  show ?case
  proof (cases "cmp x y \<le> 0")
    case True
    then have "\<forall>z\<in>set ys. cmp x z \<le> 0"
      using Cons.prems trans by auto
    then show ?thesis using True Cons.prems by simp
  next
    case False
    then have yx: "cmp y x \<le> 0" using total [of x y] by simp
    have "sorted_wrt (\<lambda>a b. cmp a b \<le> 0) (insert_sorted cmp x ys)"
      using Cons by simp
    then show ?thesis using False yx Cons.prems
      by (auto simp: set_insert_sorted)
  qed
qed

lemma sorted_array_sort:
  assumes total: "\<And>a b. cmp a b \<le> 0 \<or> cmp b a \<le> 0"
    and trans: "\<And>a b c. cmp a b \<le> 0 \<Longrightarrow> cmp b c \<le> 0 \<Longrightarrow> cmp a c \<le> 0"
  shows "sorted_wrt (\<lambda>a b. cmp a b \<le> 0) (array_sort cmp xs)"
proof (induction xs)
  case Nil
  show ?case by (simp add: array_sort_def)
next
  case (Cons x xs)
  have "array_sort cmp (x # xs) = insert_sorted cmp x (array_sort cmp xs)"
    by (simp add: array_sort_def)
  then show ?case
    using sorted_insert_sorted [of cmp "array_sort cmp xs" x, OF total trans Cons] by simp
qed

lemma compareEntries_total:
  assumes "\<forall>a b. lc a b \<le> 0 \<or> lc b a \<le> 0"
  shows "compareEntries lc a b \<le> 0 \<or> compareEntries lc b a \<le> 0"
  using assms by (auto simp: compareEntries_def)

lemma compareEntries_trans:
  assumes "\<forall>a b c. lc a b \<le> 0 \<and> lc b c \<le> 0 \<longrightarrow> lc a c \<le> 0"
    and "compareEntries lc a b \<le> 0" and "compareEntries lc b c \<le> 0"
  shows "compareEntries lc a c \<le> 0"
proof -
  have "lc (e_name a) (e_name b) \<le> 0 \<Longrightarrow> lc (e_name b) (e_name c) \<le> 0
      \<Longrightarrow> lc (e_name a) (e_name c) \<le> 0"
    using assms(1) by blast
  then show ?thesis
    using assms(2,3) by (auto simp: compareEntries_def split: if_splits)
qed

lemma compareEntries_listing_order:
  "compareEntries lc a b \<le> 0 \<Longrightarrow> listing_order lc a b"
  by (cases "e_type a"; cases "e_type b")
     (auto simp: compareEntries_def listing_order_def split: if_splits)

lemma sorted_entries:
  assumes "\<forall>a b. lc a b \<le> 0 \<or> lc b a \<le> 0"
    and "\<forall>a b c. lc a b \<le> 0 \<and> lc b c \<le> 0 \<longrightarrow> lc a c \<le> 0"
  shows "sorted_wrt (listing_order lc) (array_sort (compareEntries lc) es)"
proof -
  have "sorted_wrt (\<lambda>a b. compareEntries lc a b \<le> 0) (array_sort (compareEntries lc) es)"
    by (rule sorted_array_sort)
       (use assms compareEntries_total compareEntries_trans in blast)+
  then show ?thesis
    by (rule sorted_wrt_mono_rel [rotated]) (simp add: compareEntries_listing_order)
qed

lemma lower_txt: "toLowerCase rt (extname ''b.txt'') = ''.txt''"
proof -
  have e: "extname ''b.txt'' = ''.txt''" by code_simp
  have a: "isAscii ''.txt''" by code_simp
  have l: "map lowerChar ''.txt'' = ''.txt''" by code_simp
  show ?thesis by (simp only: e toLowerCase_ascii [OF a] l)
qed

lemma listing_file_first:
  "fst (getDirectoryStructure rt lc ''/r'' fs_file_first)
     = [\<lparr>e_name = ''a'', e_path = ''a'', e_type = Directory, e_size = 0, e_extension = []\<rparr>,
        \<lparr>e_name = ''b.txt'', e_path = ''b.txt'', e_type = RegularFile, e_size = 5,
          e_extension = ''.txt''\<rparr>]"
proof -
  have r: "readdir fs_file_first ''/r'' = Inr [''a'', ''b.txt'']"
    by (simp add: readdir_def fs_stat_def fs_file_first_def children_def dirname_def
        basename_def strip_slash_def codeUnitOrderKey_def)
  have e: "existsSync fs_file_first ''/r''"
    by (simp add: existsSync_def fs_stat_def fs_file_first_def)
  have x: "toLowerCase rt (extname ''b.txt'') = ''.txt''" by (rule lower_txt)
  have ea: "entry_of rt fs_file_first ''/r'' ''a''
      = [\<lparr>e_name = ''a'', e_path = ''a'', e_type = Directory, e_size = 0, e_extension = []\<rparr>]"
    by (simp add: entry_of_def fs_stat_def fs_file_first_def path_join_def normalize_def)
  have eb: "entry_of rt fs_file_first ''/r'' ''b.txt''
      = [\<lparr>e_name = ''b.txt'', e_path = ''b.txt'', e_type = RegularFile, e_size = 5,
          e_extension = ''.txt''\<rparr>]"
    by (simp add: entry_of_def x fs_stat_def fs_file_first_def path_join_def normalize_def)
  show ?thesis
    by (simp add: getDirectoryStructure_def e r listed_def startsWith_def ea eb
        array_sort_def compareEntries_def)
qed

lemma listing_dir_first:
  "fst (getDirectoryStructure rt lc ''/r'' fs_dir_first)
     = [\<lparr>e_name = ''a'', e_path = ''a'', e_type = Directory, e_size = 0, e_extension = []\<rparr>,
        \<lparr>e_name = ''b.txt'', e_path = ''b.txt'', e_type = RegularFile, e_size = 5,
          e_extension = ''.txt''\<rparr>]"
proof -
  have r: "readdir fs_dir_first ''/r'' = Inr [''a'', ''b.txt'']"
    by (simp add: readdir_def fs_stat_def fs_dir_first_def children_def dirname_def
        basename_def strip_slash_def codeUnitOrderKey_def)
  have e: "existsSync fs_dir_first ''/r''"
    by (simp add: existsSync_def fs_stat_def fs_dir_first_def)
  have x: "toLowerCase rt (extname ''b.txt'') = ''.txt''" by (rule lower_txt)
  have ea: "entry_of rt fs_dir_first ''/r'' ''a''
      = [\<lparr>e_name = ''a'', e_path = ''a'', e_type = Directory, e_size = 0, e_extension = []\<rparr>]"
    by (simp add: entry_of_def fs_stat_def fs_dir_first_def path_join_def normalize_def)
  have eb: "entry_of rt fs_dir_first ''/r'' ''b.txt''
      = [\<lparr>e_name = ''b.txt'', e_path = ''b.txt'', e_type = RegularFile, e_size = 5,
          e_extension = ''.txt''\<rparr>]"
    by (simp add: entry_of_def x fs_stat_def fs_dir_first_def path_join_def normalize_def)
  show ?thesis
    by (simp add: getDirectoryStructure_def e r listed_def startsWith_def ea eb
        array_sort_def compareEntries_def)
qed


lemma codeUnitCompare_total:
  "\<forall>a b. codeUnitCompare a b \<le> 0 \<or> codeUnitCompare b a \<le> 0"
  by (auto simp: codeUnitCompare_def)

lemma codeUnitCompare_trans:
  "\<forall>a b c. codeUnitCompare a b \<le> 0 \<and> codeUnitCompare b c \<le> 0 \<longrightarrow> codeUnitCompare a c \<le> 0"
  by (auto simp: codeUnitCompare_def split: if_splits)


subsection \<open>C6: the order of a listing\<close>

text \<open>
  Claim C6. For a string comparison that is total and transitive, as \<open>localeCompare\<close>
  is, the listing of every directory is ordered: no file stands before a directory,
  and of two entries of one kind the earlier does not follow the later in the
  comparison of their names. The listing of an existing directory holds exactly the
  entries of the names that \<open>readdir\<close> gives and the filter keeps. A sandbox with the
  file \<open>b.txt\<close> and the directory \<open>a\<close> is listed as \<open>a\<close>, \<open>b.txt\<close>, in whichever order
  the operating system holds the two.
\<close>

theorem C6_listing_order:
  assumes "\<forall>a b. localeCompare a b \<le> 0 \<or> localeCompare b a \<le> 0"
    and "\<forall>a b c. localeCompare a b \<le> 0 \<and> localeCompare b c \<le> 0 \<longrightarrow> localeCompare a c \<le> 0"
  shows "sorted_wrt (listing_order localeCompare) (fst (getDirectoryStructure rt localeCompare dir files))
    \<and> (existsSync files dir \<and> readdir files dir = Inr items \<longrightarrow>
         mset (fst (getDirectoryStructure rt localeCompare dir files))
           = mset (concat (map (entry_of rt files dir) (filter listed items))))
    \<and> map (\<lambda>e. (e_name e, e_type e)) (fst (getDirectoryStructure rt localeCompare ''/r'' fs_file_first))
         = [(''a'', Directory), (''b.txt'', RegularFile)]
    \<and> map (\<lambda>e. (e_name e, e_type e)) (fst (getDirectoryStructure rt localeCompare ''/r'' fs_dir_first))
         = [(''a'', Directory), (''b.txt'', RegularFile)]"
proof -
  have 1: "sorted_wrt (listing_order localeCompare)
      (fst (getDirectoryStructure rt localeCompare dir files))"
    using sorted_entries [OF assms]
    by (simp add: getDirectoryStructure_def split: sum.splits)
  have 2: "existsSync files dir \<and> readdir files dir = Inr items \<longrightarrow>
         mset (fst (getDirectoryStructure rt localeCompare dir files))
           = mset (concat (map (entry_of rt files dir) (filter listed items)))"
    by (simp add: getDirectoryStructure_def mset_array_sort)
  show ?thesis using 1 2 by (simp add: listing_file_first listing_dir_first)
qed

theorem C6_listing_witness:
  "sorted_wrt (listing_order codeUnitCompare)
     (fst (getDirectoryStructure plain_runtime codeUnitCompare ''/r'' fs_file_first))
   \<and> map (\<lambda>e. (e_name e, e_type e)) (fst (getDirectoryStructure plain_runtime codeUnitCompare ''/r'' fs_file_first))
       = [(''a'', Directory), (''b.txt'', RegularFile)]"
  using C6_listing_order [OF codeUnitCompare_total codeUnitCompare_trans, of plain_runtime
      "''/r''" fs_file_first]
  by blast


subsection \<open>C7: creating a workload at the quota\<close>

text \<open>
  Claim C7. When the owner's workloads number at least the limit of the tier, the
  create handler creates nothing and leaves the state as it is, the file system and
  the registry included; a request that names the workload is answered with the
  message that the limit is reached.
\<close>

theorem C7_quota_rejection:
  assumes "getBotLimit tier = Some l" and "countBots st userId \<ge> l"
  shows "snd (post_create rt unzip appDir now freshId userId tier botName botCode file st) = st
    \<and> (\<forall>id. fst (post_create rt unzip appDir now freshId userId tier botName botCode file st)
              \<noteq> CreateCreated id)
    \<and> (\<forall>name. botName = Some name \<and> name \<noteq> [] \<longrightarrow>
          post_create rt unzip appDir now freshId userId tier botName botCode file st
            = (CreateLimitReached l, st))"
  using assms
  by (auto simp: post_create_def limitReached_def split: option.splits)


theorem C7_quota_witness:
  "post_create plain_runtime (\<lambda>bytes. None) ''/srv'' 9 ''b2'' ''u1'' ''free'' (Some ''second'') (Some ''code'')
     None st1 = (CreateLimitReached 1, st1)
   \<and> fs (snd (post_create plain_runtime (\<lambda>bytes. None) ''/srv'' 9 ''b2'' ''u1'' ''free'' (Some ''second'')
        (Some ''code'') None st1)) = fs st1
   \<and> bots (snd (post_create plain_runtime (\<lambda>bytes. None) ''/srv'' 9 ''b2'' ''u1'' ''free'' (Some ''second'')
        (Some ''code'') None st1)) = bots st1"
proof -
  have l: "getBotLimit ''free'' = Some 1" by (simp add: getBotLimit_def)
  have c: "countBots st1 ''u1'' \<ge> 1" by (simp add: countBots_def st1_def)
  show ?thesis
    using C7_quota_rejection [OF l c, of plain_runtime "\<lambda>bytes. None" "''/srv''" 9 "''b2''" "Some ''second''" "Some ''code''" None]
    by simp
qed


text \<open>Below the quota the same request creates the workload.\<close>

lemma create_below_quota:
  "fst (post_create plain_runtime (\<lambda>bytes. None) ''/srv'' 9 ''b2'' ''u2'' ''free'' (Some ''second'')
      (Some ''code'') None st1) = CreateCreated ''b2''"
  by (simp add: post_create_def limitReached_def getBotLimit_def countBots_def st1_def
      path_join_def normalize_def ensureDir_def place_content_def writeFile_def fs_stat_def
      dirname_def Let_def)

end
